(* ===== verification/Prelude.thy ===== *)
theory Prelude
  imports Main "HOL-Library.Word"
begin

text \<open>
  Shared vocabulary of the development: the C integer types at their width on the 64-bit
  targets the repository builds for, the conversions C inserts between them, the faults a
  C program can commit, the outcome of a call that may also block, and the generic lemmas
  on lists and words the components use.
\<close>

section \<open>C types\<close>

type_synonym byte = "8 word"
type_synonym uint8_t = "8 word"
type_synonym uint32_t = "32 word"
type_synonym cint = "32 word" \<comment> \<open>\<open>int\<close>: read as signed through \<open>sint\<close>\<close>
type_synonym size_t = "64 word"
type_synonym ssize_t = "64 word" \<comment> \<open>read as signed through \<open>sint\<close>\<close>
type_synonym loff_t = "64 word"
type_synonym ptr = "nat option" \<comment> \<open>\<open>None\<close> is \<open>NULL\<close>, \<open>Some a\<close> the start of the block \<open>a\<close>\<close>

abbreviation NULL :: ptr where
  "NULL \<equiv> None"

abbreviation newline :: byte where
  "newline \<equiv> 10"

text \<open>The conversions C inserts: \<open>int\<close> to \<open>size_t\<close> extends the sign, \<open>size_t\<close> to \<open>int\<close> truncates.\<close>

definition int_to_size :: "cint \<Rightarrow> size_t" where
  "int_to_size i = scast i"

definition size_to_int :: "size_t \<Rightarrow> cint" where
  "size_to_int n = ucast n"

section \<open>Faults and outcomes\<close>

text \<open>
  What C leaves undefined is a value here: reading or writing outside a block, using or
  freeing a block twice, dereferencing \<open>NULL\<close>, reading an object that was never written,
  and using the value of a function that returned none.
\<close>

datatype fault = NullDeref | OutOfBounds | UseAfterFree | DoubleFree | UninitRead | NoReturnValue

datatype 'a outcome = Returned 'a | Blocked | Oops fault

fun obind :: "'a outcome \<Rightarrow> ('a \<Rightarrow> 'b outcome) \<Rightarrow> 'b outcome" where
  "obind (Returned x) f = f x"
| "obind Blocked f = Blocked"
| "obind (Oops e) f = Oops e"

fun ebind :: "fault + 'a \<Rightarrow> ('a \<Rightarrow> 'b outcome) \<Rightarrow> 'b outcome" where
  "ebind (Inl e) f = Oops e"
| "ebind (Inr x) f = f x"

fun returns :: "'a outcome \<Rightarrow> bool" where
  "returns (Returned x) = True"
| "returns Blocked = False"
| "returns (Oops e) = False"

lemma obind_Returned_iff:
  "obind m f = Returned y \<longleftrightarrow> (\<exists>x. m = Returned x \<and> f x = Returned y)"
  by (cases m) auto

lemma ebind_Returned_iff:
  "ebind m f = Returned y \<longleftrightarrow> (\<exists>x. m = Inr x \<and> f x = Returned y)"
  by (cases m) auto

section \<open>Collections\<close>

named_theorems c_conv \<open>the integer conversions, on values in range\<close>
named_theorems abs_simps \<open>how an operation acts on the abstraction of its state\<close>

section \<open>Words\<close>

lemma int_to_size_small [c_conv]:
  assumes "unat i < 2 ^ 31"
  shows "unat (int_to_size i) = unat i"
proof -
  have "uint i < 2 ^ 31"
    using assms by (metis of_nat_less_iff of_nat_numeral of_nat_power uint_nat)
  then have "signed_take_bit (LENGTH(32) - Suc 0) (uint i) = uint i"
    by (intro signed_take_bit_int_eq_self) (use order_trans [OF _ uint_ge_0 [of i]] in simp_all)
  then have "sint i = int (unat i)"
    by (simp only: sint_uint uint_nat)
  then have "int_to_size i = word_of_int (int (unat i))"
    by (simp only: int_to_size_def scast_eq)
  then show ?thesis
    using assms by (simp add: unsigned_ucast_eq take_bit_nat_eq_self)
qed

lemma size_to_int_unat [c_conv]:
  "unat n < 2 ^ 32 \<Longrightarrow> unat (size_to_int n) = unat n"
  by (simp add: size_to_int_def unsigned_ucast_eq take_bit_nat_eq_self)

lemma unat_of_nat_size [c_conv]: "n < 2 ^ 64 \<Longrightarrow> unat (of_nat n :: size_t) = n"
  by (simp add: unat_of_nat)

lemma unat_size_less: "unat (n :: size_t) < 2 ^ 64"
  using unsigned_less [of n, where ?'a = nat] by simp

lemma unat_of_nat_le [c_conv]: "m \<le> unat (n :: size_t) \<Longrightarrow> unat (of_nat m :: size_t) = m"
  using unat_size_less [of n] by (intro unat_of_nat_size) (rule le_less_trans)

lemma unat_add_size [c_conv]:
  fixes a b :: size_t
  assumes "unat a + unat b < 2 ^ 64"
  shows "unat (a + b) = unat a + unat b"
  using assms by (simp add: unat_word_ariths)

lemma unat_ucast_32_64 [simp]: "unat (ucast (w :: 32 word) :: 64 word) = unat w"
proof -
  have "unat w < 2 ^ 64" using unsigned_less [of w] by (rule less_trans) simp
  then show ?thesis by (simp add: unsigned_ucast_eq take_bit_nat_eq_self)
qed

lemma unat_ucast_size: "(of_nat (unat (w :: 32 word)) :: size_t) = ucast w"
  by (simp add: word_unat_eq_iff)

section \<open>Arithmetic and lists\<close>

lemma ring_mod:
  fixes a b n :: nat
  assumes "a < n" "b \<le> n"
  shows "(a + b) mod n = (if a + b < n then a + b else a + b - n)"
  using assms by (simp add: mod_if)

lemma sum_list_replicate_zero [simp]: "sum_list (replicate n (0 :: 'a :: comm_monoid_add)) = 0"
  by (induction n) simp_all

lemma take_sum_list_le: "sum_list (take k xs) \<le> sum_list (xs :: nat list)"
proof -
  have "sum_list xs = sum_list (take k xs) + sum_list (drop k xs)"
    by (metis append_take_drop_id sum_list_append)
  then show ?thesis by simp
qed

text \<open>
  \<open>locate ss n\<close> finds position \<open>n\<close> in the concatenation of strings of the lengths \<open>ss\<close>:
  which string, and where in it.
\<close>

fun locate :: "nat list \<Rightarrow> nat \<Rightarrow> (nat \<times> nat) option" where
  "locate [] n = None"
| "locate (s # ss) n =
     (if n < s then Some (0, n) else map_option (\<lambda>(i, d). (Suc i, d)) (locate ss (n - s)))"

lemma locate_None_iff: "locate ss n = None \<longleftrightarrow> sum_list ss \<le> n"
proof (induction ss arbitrary: n)
  case (Cons s ss)
  show ?case
  proof (cases "n < s")
    case False
    then show ?thesis using Cons.IH [of "n - s"] by (simp add: le_diff_conv2 add.commute)
  qed simp
qed simp

lemma locate_Some:
  "locate ss n = Some (i, d) \<longleftrightarrow> i < length ss \<and> d < ss ! i \<and> n = sum_list (take i ss) + d"
proof (induction ss arbitrary: n i)
  case Nil
  then show ?case by simp
next
  case (Cons s ss)
  show ?case
  proof (cases i)
    case 0
    then show ?thesis by auto
  next
    case (Suc j)
    then show ?thesis using Cons.IH [of "n - s" j] by auto
  qed
qed

lemma locate_append_zeros: "locate (ss @ replicate m 0) n = locate ss n"
proof (induction ss arbitrary: n)
  case Nil
  then show ?case by (simp add: locate_None_iff sum_list_replicate)
qed simp


end
