(* ===== verification/Interfaces.thy ===== *)
theory Interfaces
  imports Prelude
begin

text \<open>
  The contracts between components, as locales: what a caller may rely on, with the facts
  that follow from it proved once. Each is interpreted in the theory of the component that
  provides it.
\<close>

section \<open>A bounded queue that hands back what it overwrites\<close>

text \<open>
  Pushing never fails from a good state; when the queue holds \<open>cap\<close> items the oldest is
  dropped and its handle (\<open>tag\<close>) is returned, otherwise the answer is \<open>none\<close>.
\<close>

fun push_all :: "('q \<Rightarrow> 'a \<Rightarrow> 'f + 'r \<times> 'q) \<Rightarrow> 'q \<Rightarrow> 'a list \<Rightarrow> 'f + 'r list \<times> 'q" where
  "push_all push q [] = Inr ([], q)"
| "push_all push q (x # xs) =
     (case push q x of
        Inl e \<Rightarrow> Inl e
      | Inr (r, q') \<Rightarrow> map_sum id (\<lambda>(rs, q''). (r # rs, q'')) (push_all push q' xs))"

lemma push_all_Cons_Inr:
  "push_all push q (x # xs) = Inr (rs, q') \<longleftrightarrow>
    (\<exists>r q1 rs'. push q x = Inr (r, q1) \<and> push_all push q1 xs = Inr (rs', q') \<and> rs = r # rs')"
proof (cases "push q x")
  case (Inr a)
  then show ?thesis by (cases a; cases "push_all push (snd a) xs") auto
qed simp

locale evicting_queue =
  fixes push :: "'q \<Rightarrow> 'a \<Rightarrow> 'f + 'r \<times> 'q"
    and items :: "'q \<Rightarrow> 'a list"
    and good :: "'q \<Rightarrow> bool"
    and cap :: nat
    and none :: 'r
    and tag :: "'a \<Rightarrow> 'r"
  assumes cap_pos: "0 < cap"
    and push_total: "good q \<Longrightarrow> \<exists>r q'. push q x = Inr (r, q')"
    and push_good: "good q \<Longrightarrow> push q x = Inr (r, q') \<Longrightarrow> good q'"
    and push_items: "good q \<Longrightarrow> push q x = Inr (r, q') \<Longrightarrow>
      items q' = (if length (items q) = cap then tl (items q) else items q) @ [x]"
    and push_tag: "good q \<Longrightarrow> push q x = Inr (r, q') \<Longrightarrow>
      r = (if length (items q) = cap then tag (hd (items q)) else none)"
    and items_le: "good q \<Longrightarrow> length (items q) \<le> cap"
begin

lemma push_items_drop:
  assumes "good q" "push q x = Inr (r, q')"
  shows "items q' = drop (Suc (length (items q)) - cap) (items q @ [x])"
proof (cases "length (items q) = cap")
  case True
  then have "items q \<noteq> []" using cap_pos by auto
  with True push_items [OF assms] show ?thesis by (cases "items q") auto
next
  case False
  then have "length (items q) < cap" using items_le [OF assms(1)] by simp
  then have "Suc (length (items q)) - cap = 0" by simp
  with False push_items [OF assms] show ?thesis by (simp only: if_False drop_0)
qed

lemma push_all_good:
  assumes "good q"
  shows "\<exists>rs q'. push_all push q xs = Inr (rs, q') \<and> good q' \<and> length rs = length xs"
  using assms
proof (induction xs arbitrary: q)
  case Nil
  then show ?case by simp
next
  case (Cons x xs)
  obtain r q1 where 1: "push q x = Inr (r, q1)" "good q1"
    using push_total [OF Cons.prems] push_good [OF Cons.prems] by blast
  then show ?case using Cons.IH [OF 1(2)] by auto
qed

text \<open>After any run of pushes the queue holds the last \<open>cap\<close> of everything it was given.\<close>

lemma push_all_items:
  assumes "good q" "push_all push q xs = Inr (rs, q')"
  shows "items q' = drop (length (items q) + length xs - cap) (items q @ xs)"
  using assms
proof (induction xs arbitrary: q rs)
  case Nil
  then show ?case using items_le by simp
next
  case (Cons x xs)
  obtain r q1 rs' where 1: "push q x = Inr (r, q1)" "push_all push q1 xs = Inr (rs', q')"
    using Cons.prems(2) by (auto simp only: push_all_Cons_Inr)
  have g: "good q1" using Cons.prems(1) 1(1) by (rule push_good)
  let ?d = "Suc (length (items q)) - cap"
  have i1: "items q1 = drop ?d (items q @ [x])"
    by (rule push_items_drop [OF Cons.prems(1) 1(1)])
  have "items q' = drop (length (items q1) + length xs - cap) (items q1 @ xs)"
    using g 1(2) by (rule Cons.IH)
  also have "items q1 @ xs = drop ?d (items q @ x # xs)"
    using i1 cap_pos by simp
  finally have "items q' = drop (length (items q1) + length xs - cap) (drop ?d (items q @ x # xs))" .
  moreover have "length (items q1) + length xs - cap + ?d = length (items q) + length (x # xs) - cap"
    using i1 items_le [OF Cons.prems(1)] cap_pos by simp
  then have "drop (length (items q1) + length xs - cap) (drop ?d (items q @ x # xs)) =
      drop (length (items q) + length (x # xs) - cap) (items q @ x # xs)"
    by (simp only: drop_drop)
  ultimately show ?case by (simp only:)
qed

text \<open>Every answer of a run is the tag of the item \<open>cap\<close> places before the one pushed.\<close>

lemma push_all_tags:
  assumes "good q" "push_all push q xs = Inr (rs, q')" "k < length xs"
  shows "rs ! k = (if length (items q) + k < cap then none
    else tag ((items q @ xs) ! (length (items q) + k - cap)))"
  using assms
proof (induction xs arbitrary: q rs k)
  case Nil
  then show ?case by simp
next
  case (Cons x xs)
  obtain r q1 rs' where 1: "push q x = Inr (r, q1)" "push_all push q1 xs = Inr (rs', q')" "rs = r # rs'"
    using Cons.prems(2) by (auto simp only: push_all_Cons_Inr)
  have g: "good q1" using Cons.prems(1) 1(1) by (rule push_good)
  show ?case
  proof (cases k)
    case 0
    then show ?thesis
      using push_tag [OF Cons.prems(1) 1(1)] 1(3) items_le [OF Cons.prems(1)] cap_pos
      by (auto simp: hd_conv_nth nth_append)
  next
    case (Suc j)
    have "rs' ! j = (if length (items q1) + j < cap then none
      else tag ((items q1 @ xs) ! (length (items q1) + j - cap)))"
      using Cons.prems(3) Suc by (intro Cons.IH [OF g 1(2)]) simp
    moreover have "length (items q) \<le> cap" by (rule items_le [OF Cons.prems(1)])
    ultimately show ?thesis
      using Suc 1(3) push_items [OF Cons.prems(1) 1(1)] cap_pos
      by (auto simp: nth_append nth_tl)
  qed
qed

end

section \<open>A byte stream read in pieces\<close>

text \<open>
  A \<open>read\<close> call may return less than it was asked for; it returns nothing only at the end of
  the stream. \<open>fread_loop\<close> is what \<^verbatim>\<open>fread\<close> of the C library does with it: read on until the
  buffer is full or the stream ends.
\<close>

function fread_loop :: "(nat \<Rightarrow> nat \<Rightarrow> byte list) \<Rightarrow> nat \<Rightarrow> nat \<Rightarrow> byte list" where
  "fread_loop rd pos n =
     (let xs = rd pos n
      in if n = 0 \<or> xs = [] then [] else xs @ fread_loop rd (pos + length xs) (n - length xs))"
  by pat_completeness auto
termination
  by (relation "measure (\<lambda>(rd, pos, n). n)") auto

declare fread_loop.simps [simp del]

locale byte_stream =
  fixes rd :: "'s \<Rightarrow> nat \<Rightarrow> nat \<Rightarrow> byte list"
    and content :: "'s \<Rightarrow> byte list"
    and good :: "'s \<Rightarrow> bool"
    and lim :: nat
  assumes content_lim: "good s \<Longrightarrow> length (content s) < lim"
    and rd_prefix: "good s \<Longrightarrow> pos < lim \<Longrightarrow> n < lim \<Longrightarrow>
      rd s pos n = take (length (rd s pos n)) (drop pos (content s)) \<and> length (rd s pos n) \<le> n \<and>
      (rd s pos n = [] \<longleftrightarrow> n = 0 \<or> length (content s) \<le> pos)"
begin

lemma fread_loop_take:
  assumes "good s" "pos < lim" "n < lim"
  shows "fread_loop (rd s) pos n = take n (drop pos (content s))"
  using assms
proof (induction "rd s" pos n rule: fread_loop.induct)
  case (1 pos n)
  let ?xs = "rd s pos n"
  note r = rd_prefix [OF "1.prems"]
  show ?case
  proof (cases "n = 0 \<or> ?xs = []")
    case True
    with r show ?thesis by (subst fread_loop.simps) auto
  next
    case False
    with r have len: "0 < length ?xs" "length ?xs \<le> length (content s) - pos" "pos < length (content s)"
      by (auto intro: ccontr)
    then have "pos + length ?xs < lim" using content_lim [OF "1.prems"(1)] by simp
    then have "fread_loop (rd s) (pos + length ?xs) (n - length ?xs) =
        take (n - length ?xs) (drop (pos + length ?xs) (content s))"
      using False "1.prems" by (intro "1.hyps") auto
    moreover have "take n (drop pos (content s)) =
        take (length ?xs) (drop pos (content s)) @ take (n - length ?xs) (drop (length ?xs) (drop pos (content s)))"
      using r by (metis le_add_diff_inverse take_add)
    ultimately show ?thesis
      using False r by (subst fread_loop.simps) (simp add: Let_def add.commute)
  qed
qed

end

section \<open>A transition system with an invariant\<close>

inductive reached :: "('s \<Rightarrow> bool) \<Rightarrow> ('s \<Rightarrow> 's \<Rightarrow> bool) \<Rightarrow> 's \<Rightarrow> bool"
  for init :: "'s \<Rightarrow> bool" and step :: "'s \<Rightarrow> 's \<Rightarrow> bool" where
  reached_init: "init s \<Longrightarrow> reached init step s"
| reached_step: "reached init step s \<Longrightarrow> step s t \<Longrightarrow> reached init step t"

locale invariant_system =
  fixes init :: "'s \<Rightarrow> bool" and step :: "'s \<Rightarrow> 's \<Rightarrow> bool" and inv :: "'s \<Rightarrow> bool"
  assumes inv_init: "init s \<Longrightarrow> inv s"
    and inv_step: "inv s \<Longrightarrow> step s t \<Longrightarrow> inv t"
begin

lemma reached_inv: "reached init step s \<Longrightarrow> inv s"
  by (induction rule: reached.induct) (auto intro: inv_init inv_step)

end

end
