(* ===== verification/Circular_Buffer.thy ===== *)
theory Circular_Buffer
  imports Interfaces
begin

text \<open>
  \<^verbatim>\<open>aesd-char-driver/aesd-circular-buffer.{h,c}\<close>: the ring of the ten most recent write
  commands. The records are the C structs; the entry array is a list of length ten. The
  loop counters of the C code run from \<open>out_offs\<close> to \<open>out_offs + 10\<close>, at most 265, and are
  \<open>nat\<close> here; every other \<open>int\<close> and \<open>size_t\<close> keeps its width and wraps.
\<close>

section \<open>Data\<close>

definition AESDCHAR_MAX_WRITE_OPERATIONS_SUPPORTED :: nat where
  "AESDCHAR_MAX_WRITE_OPERATIONS_SUPPORTED = 10"

record aesd_buffer_entry =
  buffptr :: ptr
  bsize :: size_t

record aesd_circular_buffer =
  entry :: "aesd_buffer_entry list"
  in_offs :: uint8_t
  out_offs :: uint8_t
  full :: bool

text \<open>All bytes zero, as \<open>memset\<close> leaves an entry.\<close>

definition zero_entry :: aesd_buffer_entry where
  "zero_entry = \<lparr>buffptr = NULL, bsize = 0\<rparr>"

section \<open>Operations\<close>

definition aesd_circular_buffer_init :: "aesd_circular_buffer \<Rightarrow> aesd_circular_buffer" where
  "aesd_circular_buffer_init buffer =
     buffer\<lparr>entry := replicate AESDCHAR_MAX_WRITE_OPERATIONS_SUPPORTED zero_entry,
            in_offs := 0, out_offs := 0, full := False\<rparr>"

text \<open>
  \<open>add_entry\<close> indexes the array with \<open>in_offs\<close> unchecked; an index past the array is the
  fault \<open>OutOfBounds\<close>. The result is the returned pointer and the updated buffer. The
  wrap-around \<open>(offs + 1) % 10\<close> is computed in \<open>int\<close>, where \<open>255 + 1\<close> does not wrap, and
  stored back into a \<open>uint8_t\<close>.
\<close>

definition next_offs :: "uint8_t \<Rightarrow> uint8_t" where
  "next_offs o' = of_nat ((unat o' + 1) mod AESDCHAR_MAX_WRITE_OPERATIONS_SUPPORTED)"

definition aesd_circular_buffer_add_entry ::
  "aesd_circular_buffer \<Rightarrow> aesd_buffer_entry \<Rightarrow> fault + (ptr \<times> aesd_circular_buffer)" where
  "aesd_circular_buffer_add_entry buffer add_entry =
     (if unat (in_offs buffer) < length (entry buffer) then
        let save_buffptr = buffptr (entry buffer ! unat (in_offs buffer));
            b1 = buffer\<lparr>entry := (entry buffer)[unat (in_offs buffer) := add_entry]\<rparr>;
            b2 = b1\<lparr>in_offs := next_offs (in_offs b1)\<rparr>;
            ptr_return = (if full b2 then save_buffptr else NULL);
            b3 = (if full b2 then b2\<lparr>out_offs := next_offs (out_offs b2)\<rparr> else b2);
            b4 = b3\<lparr>full := (in_offs b3 = out_offs b3)\<rparr>
        in Inr (ptr_return, b4)
      else Inl OutOfBounds)"

text \<open>
  The search loop. \<open>pos\<close> and \<open>pos_start\<close> are \<open>int\<close>: \<open>pos += size\<close> adds in \<open>size_t\<close> and
  truncates, \<open>char_offset < pos\<close> and \<open>char_offset - pos_start\<close> extend the sign back. A hit
  is the index of the entry the code returns a pointer to and the offset it stores.
\<close>

definition add_size :: "cint \<Rightarrow> size_t \<Rightarrow> cint" where
  "add_size p n = size_to_int (int_to_size p + n)"

function find_loop ::
  "aesd_buffer_entry list \<Rightarrow> size_t \<Rightarrow> nat \<Rightarrow> nat \<Rightarrow> cint \<Rightarrow> cint \<Rightarrow> (nat \<times> size_t) option" where
  "find_loop es char_offset arr_end i pos pos_start =
     (if i < arr_end then
        let arr_pos = i mod 10;
            pos' = add_size pos (bsize (es ! arr_pos))
        in if pos' = 0 then None
           else if char_offset < int_to_size pos'
           then Some (arr_pos, char_offset - int_to_size pos_start)
           else find_loop es char_offset arr_end (Suc i) pos'
                  (add_size pos_start (bsize (es ! arr_pos)))
      else None)"
  by pat_completeness auto
termination
  by (relation "measure (\<lambda>(es, c, arr_end, i, p, q). arr_end - i)") auto

declare find_loop.simps [simp del]

definition aesd_circular_buffer_find_entry_offset_for_fpos ::
  "aesd_circular_buffer \<Rightarrow> size_t \<Rightarrow> (nat \<times> size_t) option" where
  "aesd_circular_buffer_find_entry_offset_for_fpos buffer char_offset =
     find_loop (entry buffer) char_offset
       (unat (out_offs buffer) + AESDCHAR_MAX_WRITE_OPERATIONS_SUPPORTED)
       (unat (out_offs buffer)) 0 0"

text \<open>
  The loop of \<open>get_fpos\<close>: \<open>pos_count == buff_pos\<close> compares as \<open>uint32_t\<close>, and
  \<open>byte_pos + offset\<close> is a \<open>uint32_t\<close> sum that is then widened to \<open>long\<close>.
\<close>

function get_fpos_loop ::
  "aesd_buffer_entry list \<Rightarrow> uint32_t \<Rightarrow> nat \<Rightarrow> nat \<Rightarrow> cint \<Rightarrow> cint \<Rightarrow> cint" where
  "get_fpos_loop es buff_pos arr_end i pos_count byte_pos =
     (if i < arr_end then
        let arr_pos = i mod AESDCHAR_MAX_WRITE_OPERATIONS_SUPPORTED
        in if pos_count = buff_pos then byte_pos
           else get_fpos_loop es buff_pos arr_end (Suc i) (pos_count + 1)
                  (add_size byte_pos (bsize (es ! arr_pos)))
      else byte_pos)"
  by pat_completeness auto
termination
  by (relation "measure (\<lambda>(es, b, arr_end, i, p, q). arr_end - i)") auto

declare get_fpos_loop.simps [simp del]

definition aesd_circular_buffer_get_fpos ::
  "aesd_circular_buffer \<Rightarrow> uint32_t \<Rightarrow> uint32_t \<Rightarrow> 64 word" where
  "aesd_circular_buffer_get_fpos buffer buff_pos offset =
     (let byte_pos = get_fpos_loop (entry buffer) buff_pos
            (unat (out_offs buffer) + AESDCHAR_MAX_WRITE_OPERATIONS_SUPPORTED)
            (unat (out_offs buffer)) 0 0
      in ucast (byte_pos + offset))"

text \<open>\<open>AESD_CIRCULAR_BUFFER_FOREACH\<close> visits every slot of the array, from index 0, used or not.\<close>

definition AESD_CIRCULAR_BUFFER_FOREACH :: "aesd_circular_buffer \<Rightarrow> aesd_buffer_entry list" where
  "AESD_CIRCULAR_BUFFER_FOREACH buffer =
     map (\<lambda>index. entry buffer ! index) [0..<AESDCHAR_MAX_WRITE_OPERATIONS_SUPPORTED]"

section \<open>Abstraction and invariant\<close>

text \<open>
  The live slots, oldest first: ten from \<open>out_offs\<close> when the ring is full, otherwise those
  from \<open>out_offs\<close> up to \<open>in_offs\<close> modulo ten.
\<close>

definition live_count :: "aesd_circular_buffer \<Rightarrow> nat" where
  "live_count b = (if full b then 10 else (unat (in_offs b) + 10 - unat (out_offs b)) mod 10)"

definition slot :: "aesd_circular_buffer \<Rightarrow> nat \<Rightarrow> nat" where
  "slot b k = (unat (out_offs b) + k) mod 10"

definition contents :: "aesd_circular_buffer \<Rightarrow> aesd_buffer_entry list" where
  "contents b = map (\<lambda>k. entry b ! slot b k) [0..<live_count b]"

definition ring_wf :: "aesd_circular_buffer \<Rightarrow> bool" where
  "ring_wf b \<longleftrightarrow> length (entry b) = 10 \<and> unat (in_offs b) < 10 \<and> unat (out_offs b) < 10 \<and>
     (full b \<longrightarrow> in_offs b = out_offs b) \<and>
     (\<forall>k < 10. live_count b \<le> k \<longrightarrow> entry b ! slot b k = zero_entry)"

text \<open>The lengths of the live commands, oldest first.\<close>

definition csizes :: "aesd_circular_buffer \<Rightarrow> nat list" where
  "csizes b = map (\<lambda>e. unat (bsize e)) (contents b)"

section \<open>Adding an entry\<close>

lemma next_offs_unat [simp]: "unat (next_offs o') = (unat o' + 1) mod 10"
proof -
  have "(unat o' + 1) mod 10 < (10::nat)" by simp
  then have "(unat o' + 1) mod 10 < 2 ^ LENGTH(8)" by (rule less_trans) simp
  then show ?thesis
    by (simp add: next_offs_def AESDCHAR_MAX_WRITE_OPERATIONS_SUPPORTED_def unat_of_nat)
qed

lemma live_count_le: "live_count b \<le> 10"
  by (auto simp: live_count_def intro: less_imp_le)

lemma length_contents [simp]: "length (contents b) = live_count b"
  by (simp add: contents_def)

lemma nth_contents: "k < live_count b \<Longrightarrow> contents b ! k = entry b ! slot b k"
  by (simp add: contents_def)

lemma slot_less [simp]: "slot b k < 10"
  by (simp add: slot_def)

lemma slot_eq: "unat (out_offs b) < 10 \<Longrightarrow> k \<le> 10 \<Longrightarrow>
  slot b k = (if unat (out_offs b) + k < 10 then unat (out_offs b) + k else unat (out_offs b) + k - 10)"
  by (simp add: slot_def ring_mod)

lemma live_count_eq:
  assumes "ring_wf b" "\<not> full b"
  shows "live_count b = (if unat (out_offs b) \<le> unat (in_offs b) then unat (in_offs b) - unat (out_offs b)
     else unat (in_offs b) + 10 - unat (out_offs b))"
  using assms by (auto simp: live_count_def ring_wf_def mod_if)

lemma in_offs_slot:
  assumes "ring_wf b"
  shows "unat (in_offs b) = slot b (if full b then 0 else live_count b)"
proof (cases "full b")
  case True
  then show ?thesis using assms by (simp add: slot_def ring_wf_def)
next
  case False
  have "unat (in_offs b) < 10" "unat (out_offs b) < 10"
    using assms by (auto simp: ring_wf_def)
  with False live_count_eq [OF assms False] live_count_le [of b] show ?thesis
    by (auto simp: slot_eq split: if_splits)
qed

lemma slot_inj: "unat (out_offs b) < 10 \<Longrightarrow> k < 10 \<Longrightarrow> l < 10 \<Longrightarrow> slot b k = slot b l \<longleftrightarrow> k = l"
  by (auto simp: slot_eq split: if_splits)

lemma live_count_full: "live_count b = 10 \<longleftrightarrow> full b"
  by (simp add: live_count_def) (metis mod_less_divisor less_irrefl zero_less_numeral)

lemma add_entry_total:
  "ring_wf b \<Longrightarrow> \<exists>p b'. aesd_circular_buffer_add_entry b e = Inr (p, b')"
  by (simp add: aesd_circular_buffer_add_entry_def Let_def ring_wf_def)

lemma add_entry_fields:
  assumes "aesd_circular_buffer_add_entry b e = Inr (p, b')"
  shows "p = (if full b then buffptr (entry b ! unat (in_offs b)) else NULL)"
    and "entry b' = (entry b)[unat (in_offs b) := e]"
    and "unat (in_offs b') = (unat (in_offs b) + 1) mod 10"
    and "unat (out_offs b') = (if full b then (unat (out_offs b) + 1) mod 10 else unat (out_offs b))"
    and "full b' \<longleftrightarrow> in_offs b' = out_offs b'"
  using assms by (auto simp: aesd_circular_buffer_add_entry_def Let_def split: if_splits)

lemma add_live_count:
  assumes "ring_wf b" "aesd_circular_buffer_add_entry b e = Inr (p, b')"
  shows "live_count b' = (if full b then 10 else Suc (live_count b))"
proof -
  from assms(1) have w: "unat (in_offs b) < 10" "unat (out_offs b) < 10" "full b \<Longrightarrow> in_offs b = out_offs b"
    by (auto simp: ring_wf_def)
  have "unat (in_offs b') = (unat (in_offs b) + 1) mod 10"
    "unat (out_offs b') = (if full b then (unat (out_offs b) + 1) mod 10 else unat (out_offs b))"
    "full b' \<longleftrightarrow> unat (in_offs b') = unat (out_offs b')"
    by (simp_all add: add_entry_fields [OF assms(2)] word_unat_eq_iff)
  with w live_count_eq [OF assms(1)] show ?thesis
    by (auto simp: live_count_def mod_if split: if_splits)
qed

lemma add_slot:
  assumes "ring_wf b" "aesd_circular_buffer_add_entry b e = Inr (p, b')" "k < 10"
  shows "slot b' k = slot b (if full b then Suc k else k)"
proof -
  have "unat (out_offs b') = (if full b then (unat (out_offs b) + 1) mod 10 else unat (out_offs b))"
    by (rule add_entry_fields [OF assms(2)])
  then show ?thesis by (simp add: slot_def mod_simps)
qed

lemma add_entry_nth:
  assumes "ring_wf b" "aesd_circular_buffer_add_entry b e = Inr (p, b')" "k < 10"
  shows "entry b' ! slot b' k =
    (if k = (if full b then 9 else live_count b) then e else entry b ! slot b (if full b then Suc k else k))"
proof -
  have w: "length (entry b) = 10" "unat (out_offs b) < 10"
    using assms(1) by (auto simp: ring_wf_def)
  have en: "entry b' = (entry b)[unat (in_offs b) := e]"
    by (rule add_entry_fields [OF assms(2)])
  show ?thesis
  proof (cases "full b")
    case True
    have "slot b (Suc k) = slot b 0 \<longleftrightarrow> k = 9"
      using w(2) assms(3) by (auto simp: slot_eq)
    with True show ?thesis
      using en w in_offs_slot [OF assms(1)] add_slot [OF assms] by (auto simp: nth_list_update)
  next
    case False
    with live_count_le [of b] live_count_full [of b] have "live_count b < 10" by simp
    then have "slot b k = slot b (live_count b) \<longleftrightarrow> k = live_count b"
      using w(2) assms(3) by (auto simp: slot_inj)
    with False show ?thesis
      using en w in_offs_slot [OF assms(1)] add_slot [OF assms] by (auto simp: nth_list_update)
  qed
qed

lemma add_entry_wf:
  assumes "ring_wf b" "aesd_circular_buffer_add_entry b e = Inr (p, b')"
  shows "ring_wf b'"
proof -
  have "length (entry b) = 10" "unat (out_offs b) < 10"
    using assms(1) by (simp_all add: ring_wf_def)
  then have 1: "length (entry b') = 10" "unat (in_offs b') < 10" "unat (out_offs b') < 10"
      "full b' \<longrightarrow> in_offs b' = out_offs b'"
    by (simp_all add: add_entry_fields [OF assms(2)])
  moreover have "entry b' ! slot b' k = zero_entry" if k: "k < 10" "live_count b' \<le> k" for k
  proof -
    have "\<not> full b" "live_count b < k"
      using k add_live_count [OF assms] by (auto split: if_splits)
    then show ?thesis
      using assms(1) add_entry_nth [OF assms k(1)] k by (auto simp: ring_wf_def)
  qed
  ultimately show ?thesis by (simp add: ring_wf_def)
qed

lemma add_entry_contents:
  assumes "ring_wf b" "aesd_circular_buffer_add_entry b e = Inr (p, b')"
  shows "contents b' = (if length (contents b) = 10 then tl (contents b) else contents b) @ [e]"
proof (rule nth_equalityI)
  show "length (contents b') = length ((if length (contents b) = 10 then tl (contents b) else contents b) @ [e])"
    using add_live_count [OF assms] live_count_full [of b] by auto
next
  fix k assume "k < length (contents b')"
  then have k: "k < live_count b'" "k < 10" using live_count_le [of b'] by auto
  show "contents b' ! k = ((if length (contents b) = 10 then tl (contents b) else contents b) @ [e]) ! k"
  proof (cases "full b")
    case True
    then have n: "live_count b = 10" by (simp add: live_count_full)
    then show ?thesis
      using True k add_entry_nth [OF assms k(2)]
      by (auto simp: nth_contents nth_append nth_tl)
  next
    case False
    then have "live_count b \<noteq> 10" by (simp add: live_count_full)
    then show ?thesis
      using False k add_entry_nth [OF assms k(2)] add_live_count [OF assms]
      by (auto simp: nth_contents nth_append)
  qed
qed

lemma add_entry_returns:
  assumes "ring_wf b" "aesd_circular_buffer_add_entry b e = Inr (p, b')"
  shows "p = (if length (contents b) = 10 then buffptr (hd (contents b)) else NULL)"
proof (cases "full b")
  case True
  then have n: "live_count b = 10" by (simp add: live_count_full)
  then have "contents b \<noteq> []" by (metis length_contents list.size(3) zero_neq_numeral)
  with n True in_offs_slot [OF assms(1)] add_entry_fields(1) [OF assms(2)] show ?thesis
    by (auto simp: hd_conv_nth nth_contents)
next
  case False
  then show ?thesis using live_count_full [of b] add_entry_fields(1) [OF assms(2)] by auto
qed

lemma init_wf: "ring_wf (aesd_circular_buffer_init b)"
  by (simp add: ring_wf_def aesd_circular_buffer_init_def AESDCHAR_MAX_WRITE_OPERATIONS_SUPPORTED_def)

lemma init_contents: "contents (aesd_circular_buffer_init b) = []"
  by (simp add: contents_def live_count_def aesd_circular_buffer_init_def)

interpretation ring: evicting_queue aesd_circular_buffer_add_entry contents ring_wf 10 NULL buffptr
proof (unfold_locales, goal_cases)
  case 1
  show ?case by simp
next
  case (2 q x)
  then show ?case by (rule add_entry_total)
next
  case (3 q x r q')
  then show ?case by (rule add_entry_wf)
next
  case (4 q x r q')
  then show ?case by (rule add_entry_contents)
next
  case (5 q x r q')
  then show ?case by (rule add_entry_returns)
next
  case (6 q)
  then show ?case by (simp add: live_count_le)
qed

section \<open>Searching by file position\<close>

text \<open>The sizes in the order the two loops visit the slots.\<close>

definition ring_sizes :: "aesd_buffer_entry list \<Rightarrow> nat \<Rightarrow> nat list" where
  "ring_sizes es start = map (\<lambda>k. unat (bsize (es ! ((start + k) mod 10)))) [0..<10]"

lemma add_size_unat:
  assumes "unat p + unat n < 2 ^ 31"
  shows "unat (add_size p n) = unat p + unat n"
proof -
  have p: "unat (int_to_size p) = unat p"
    using assms by (simp add: int_to_size_small)
  then have "unat (int_to_size p + n) = unat p + unat n"
    using assms by (simp add: unat_word_ariths)
  then show ?thesis
    using assms by (simp add: add_size_def size_to_int_unat)
qed

lemma length_ring_sizes [simp]: "length (ring_sizes es start) = 10"
  by (simp add: ring_sizes_def)

lemma nth_ring_sizes: "k < 10 \<Longrightarrow> ring_sizes es start ! k = unat (bsize (es ! ((start + k) mod 10)))"
  by (simp add: ring_sizes_def)

lemma find_loop_locate:
  fixes es start
  defines "ss \<equiv> ring_sizes es start"
  assumes small: "sum_list ss < 2 ^ 31"
    and pos: "unat pos = sum_list (take k ss)"
    and le: "sum_list (take k ss) \<le> unat c"
    and nz: "k = 0 \<Longrightarrow> ss ! 0 = 0 \<Longrightarrow> sum_list ss = 0" "0 < k \<Longrightarrow> 0 < sum_list (take k ss)"
    and k: "k \<le> 10"
  shows "find_loop es c (start + 10) (start + k) pos pos =
    map_option (\<lambda>(j, d). ((start + k + j) mod 10, of_nat d))
      (locate (drop k ss) (unat c - sum_list (take k ss)))"
  using pos le nz k
proof (induction "10 - k" arbitrary: k pos)
  case 0
  then have "k = 10" by simp
  then show ?case by (simp add: find_loop.simps [of _ _ _ "start + 10"] ss_def)
next
  case (Suc m)
  then have k: "k < 10" by simp
  define e where "e = es ! ((start + k) mod 10)"
  have sk: "ss ! k = unat (bsize e)"
    using k by (simp add: ss_def nth_ring_sizes e_def)
  have tk: "sum_list (take (Suc k) ss) = sum_list (take k ss) + ss ! k"
    using k by (simp add: take_Suc_conv_app_nth ss_def)
  have dk: "drop k ss = ss ! k # drop (Suc k) ss"
    using k by (simp add: Cons_nth_drop_Suc ss_def)
  have lt: "sum_list (take (Suc k) ss) < 2 ^ 31"
    using take_sum_list_le [of "Suc k" ss] small by simp
  then have pos': "unat (add_size pos (bsize e)) = sum_list (take (Suc k) ss)"
    using Suc.prems(1) by (simp add: add_size_unat tk sk)
  then have ext: "unat (int_to_size (add_size pos (bsize e))) = sum_list (take (Suc k) ss)"
    using lt by (simp add: int_to_size_small)
  have ext0: "unat (int_to_size pos) = sum_list (take k ss)"
    using lt tk Suc.prems(1) by (simp add: int_to_size_small)
  note unfold = find_loop.simps [of es c "start + 10" "start + k" pos pos]
  show ?case
  proof (cases "sum_list (take (Suc k) ss) = 0")
    case True
    then have z: "add_size pos (bsize e) = 0"
      using pos' by (simp only: unsigned_eq_0_iff)
    have "k = 0" using Suc.prems(4) True tk by (metis add_is_0 gr0I less_irrefl)
    moreover have "ss ! k = 0" using True tk by linarith
    ultimately have "sum_list ss = 0" using Suc.prems(3) by blast
    then have "locate ss (unat c) = None" by (metis locate_None_iff zero_le)
    with \<open>k = 0\<close> z show ?thesis by (subst unfold) (simp add: Let_def e_def)
  next
    case False
    then have gt: "0 < sum_list (take (Suc k) ss)" by (simp only: neq0_conv)
    from False have nz: "add_size pos (bsize e) \<noteq> 0"
      using pos' by (metis unat_0)
    have lt_iff: "c < int_to_size (add_size pos (bsize e)) \<longleftrightarrow> unat c < sum_list (take (Suc k) ss)"
      by (simp add: word_less_nat_alt ext)
    show ?thesis
    proof (cases "unat c < sum_list (take (Suc k) ss)")
      case True
      have "c - int_to_size pos = of_nat (unat c - sum_list (take k ss))"
        by (metis Suc.prems(2) ext0 of_nat_diff of_nat_unat ucast_id)
      with True nz lt_iff Suc.prems(2) k tk dk show ?thesis
        by (subst unfold) (auto simp: Let_def e_def)
    next
      case False
      have "find_loop es c (start + 10) (start + Suc k) (add_size pos (bsize e)) (add_size pos (bsize e)) =
        map_option (\<lambda>(j, d). ((start + Suc k + j) mod 10, of_nat d))
          (locate (drop (Suc k) ss) (unat c - sum_list (take (Suc k) ss)))"
        using Suc.hyps(2) False pos' gt k by (intro Suc.hyps(1)) simp_all
      with False nz lt_iff k tk dk show ?thesis
        by (subst unfold) (auto simp: Let_def e_def option.map_comp comp_def case_prod_beta
            intro!: option.map_cong)
    qed
  qed
qed


lemma length_csizes [simp]: "length (csizes b) = live_count b"
  by (simp add: csizes_def)

lemma ring_sizes_csizes:
  assumes "ring_wf b"
  shows "ring_sizes (entry b) (unat (out_offs b)) = csizes b @ replicate (10 - live_count b) 0"
proof (rule nth_equalityI)
  show "length (ring_sizes (entry b) (unat (out_offs b))) = length (csizes b @ replicate (10 - live_count b) 0)"
    using live_count_le [of b] by simp
next
  fix k assume "k < length (ring_sizes (entry b) (unat (out_offs b)))"
  then have k: "k < 10" by simp
  show "ring_sizes (entry b) (unat (out_offs b)) ! k = (csizes b @ replicate (10 - live_count b) 0) ! k"
  proof (cases "k < live_count b")
    case True
    then show ?thesis using k
      by (simp add: nth_ring_sizes nth_append csizes_def nth_contents slot_def)
  next
    case False
    then have "entry b ! slot b k = zero_entry" using assms k by (simp add: ring_wf_def)
    with False k show ?thesis by (simp add: nth_ring_sizes nth_append slot_def zero_entry_def)
  qed
qed

lemma sum_list_ring_sizes:
  "ring_wf b \<Longrightarrow> sum_list (ring_sizes (entry b) (unat (out_offs b))) = sum_list (csizes b)"
  by (simp add: ring_sizes_csizes sum_list_replicate)

lemma find_entry_locate:
  assumes "ring_wf b" "sum_list (csizes b) < 2 ^ 31" "csizes b = [] \<or> hd (csizes b) > 0"
  shows "aesd_circular_buffer_find_entry_offset_for_fpos b c =
    map_option (\<lambda>(j, d). (slot b j, of_nat d)) (locate (csizes b) (unat c))"
proof -
  let ?ss = "ring_sizes (entry b) (unat (out_offs b))"
  have z: "?ss ! 0 = 0 \<Longrightarrow> sum_list ?ss = 0"
    using assms(3) by (cases "csizes b")
      (simp_all add: ring_sizes_csizes [OF assms(1)] sum_list_replicate nth_append hd_conv_nth)
  have "find_loop (entry b) c (unat (out_offs b) + 10) (unat (out_offs b) + 0) 0 0 =
    map_option (\<lambda>(j, d). ((unat (out_offs b) + 0 + j) mod 10, of_nat d))
      (locate (drop 0 ?ss) (unat c - sum_list (take 0 ?ss)))"
    using assms(2) z sum_list_ring_sizes [OF assms(1)]
    by (intro find_loop_locate) auto
  then show ?thesis
    by (simp add: aesd_circular_buffer_find_entry_offset_for_fpos_def
        AESDCHAR_MAX_WRITE_OPERATIONS_SUPPORTED_def ring_sizes_csizes [OF assms(1)]
        locate_append_zeros slot_def)
qed

lemma get_fpos_loop_sum:
  fixes es start
  defines "ss \<equiv> ring_sizes es start"
  assumes "sum_list ss < 2 ^ 31" "unat byte_pos = sum_list (take k ss)" "k \<le> unat buff_pos" "k \<le> 10"
  shows "unat (get_fpos_loop es buff_pos (start + 10) (start + k) (of_nat k) byte_pos) =
    sum_list (take (unat buff_pos) ss)"
  using assms(3-)
proof (induction "10 - k" arbitrary: k byte_pos)
  case 0
  then have "k = 10" by simp
  with 0 show ?case
    by (simp add: get_fpos_loop.simps [of _ _ "start + 10"] ss_def)
next
  case (Suc m)
  then have k: "k < 10" by simp
  have tk: "sum_list (take (Suc k) ss) = sum_list (take k ss) + ss ! k"
    using k by (simp add: take_Suc_conv_app_nth ss_def)
  have lt: "sum_list (take (Suc k) ss) < 2 ^ 31"
    using take_sum_list_le [of "Suc k" ss] assms(2) by simp
  have eq: "(of_nat k :: cint) = buff_pos \<longleftrightarrow> k = unat buff_pos"
    using k by (metis Suc.prems(2) le_less_trans of_nat_inverse of_nat_unat ucast_id unsigned_less)
  note unfold = get_fpos_loop.simps [of es buff_pos "start + 10" "start + k" "of_nat k" byte_pos]
  show ?case
  proof (cases "k = unat buff_pos")
    case True
    then show ?thesis using k Suc.prems(1) eq by (subst unfold) simp
  next
    case False
    let ?p = "add_size byte_pos (bsize (es ! ((start + k) mod 10)))"
    have "unat ?p = sum_list (take (Suc k) ss)"
      using Suc.prems(1) lt tk k by (simp add: add_size_unat ss_def nth_ring_sizes)
    then have "unat (get_fpos_loop es buff_pos (start + 10) (start + Suc k) (of_nat (Suc k)) ?p) =
        sum_list (take (unat buff_pos) ss)"
      using Suc.hyps(2) False Suc.prems(2) k by (intro Suc.hyps(1)) auto
    then show ?thesis
      using k False eq by (subst unfold)
        (simp add: Let_def AESDCHAR_MAX_WRITE_OPERATIONS_SUPPORTED_def add.commute)
  qed
qed

lemma get_fpos_sum:
  assumes "ring_wf b" "sum_list (csizes b) < 2 ^ 31" "sum_list (csizes b) + unat offset < 2 ^ 32"
  shows "unat (aesd_circular_buffer_get_fpos b cmd offset) =
    sum_list (take (unat cmd) (csizes b)) + unat offset"
proof -
  let ?ss = "ring_sizes (entry b) (unat (out_offs b))"
  let ?p = "get_fpos_loop (entry b) cmd (unat (out_offs b) + 10) (unat (out_offs b)) 0 0"
  have "unat (get_fpos_loop (entry b) cmd (unat (out_offs b) + 10) (unat (out_offs b) + 0) (of_nat 0) 0) =
    sum_list (take (unat cmd) ?ss)"
    using assms(2) sum_list_ring_sizes [OF assms(1)] by (intro get_fpos_loop_sum) auto
  then have p: "unat ?p = sum_list (take (unat cmd) (csizes b))"
    by (simp add: ring_sizes_csizes [OF assms(1)] sum_list_replicate take_replicate)
  have "unat ?p + unat offset < 2 ^ 32"
    using p take_sum_list_le [of "unat cmd" "csizes b"] assms(3) by simp
  then have "unat (?p + offset) = unat ?p + unat offset"
    by (simp add: unat_word_ariths)
  then show ?thesis
    using p by (simp add: aesd_circular_buffer_get_fpos_def AESDCHAR_MAX_WRITE_OPERATIONS_SUPPORTED_def
        Let_def unat_ucast_32_64)
qed

text \<open>The searches undo each other: the position of a byte leads back to its slot and offset.\<close>

lemma find_get_fpos:
  assumes "ring_wf b" "sum_list (csizes b) < 2 ^ 31" "0 \<notin> set (csizes b)"
    and "unat cmd < live_count b" "unat offset < csizes b ! unat cmd"
  shows "aesd_circular_buffer_find_entry_offset_for_fpos b (aesd_circular_buffer_get_fpos b cmd offset) =
    Some (slot b (unat cmd), ucast offset)"
proof -
  have "csizes b ! unat cmd \<le> sum_list (csizes b)"
    using assms(4) by (simp add: elem_le_sum_list)
  then have "unat (aesd_circular_buffer_get_fpos b cmd offset) =
      sum_list (take (unat cmd) (csizes b)) + unat offset"
    using assms by (intro get_fpos_sum) auto
  then have "locate (csizes b) (unat (aesd_circular_buffer_get_fpos b cmd offset)) =
      Some (unat cmd, unat offset)"
    using assms by (simp add: locate_Some)
  moreover have "csizes b = [] \<or> hd (csizes b) > 0"
    using assms(3) by (cases "csizes b") auto
  ultimately show ?thesis
    using assms find_entry_locate [of b] by (simp add: unat_ucast_size)
qed

section \<open>Visiting every slot\<close>

lemma contents_rotate:
  assumes "ring_wf b"
  shows "contents b @ replicate (10 - live_count b) zero_entry = rotate (unat (out_offs b)) (entry b)"
proof (rule nth_equalityI)
  show "length (contents b @ replicate (10 - live_count b) zero_entry) =
      length (rotate (unat (out_offs b)) (entry b))"
    using assms live_count_le [of b] by (simp add: ring_wf_def)
next
  fix k assume "k < length (contents b @ replicate (10 - live_count b) zero_entry)"
  then have "k < 10" using live_count_le [of b] by simp
  then show "(contents b @ replicate (10 - live_count b) zero_entry) ! k =
      rotate (unat (out_offs b)) (entry b) ! k"
    using assms by (auto simp: ring_wf_def nth_append nth_contents nth_rotate slot_def)
qed

lemma foreach_eq: "length (entry b) = 10 \<Longrightarrow> AESD_CIRCULAR_BUFFER_FOREACH b = entry b"
  by (rule nth_equalityI)
    (simp_all add: AESD_CIRCULAR_BUFFER_FOREACH_def AESDCHAR_MAX_WRITE_OPERATIONS_SUPPORTED_def)

text \<open>Any sum over all slots is the sum over the live entries and the zero ones.\<close>

lemma foreach_sum:
  fixes f :: "aesd_buffer_entry \<Rightarrow> 'a::comm_monoid_add"
  assumes "ring_wf b" "f zero_entry = 0"
  shows "sum_list (map f (AESD_CIRCULAR_BUFFER_FOREACH b)) = sum_list (map f (contents b))"
proof -
  let ?n = "unat (out_offs b) mod length (entry b)"
  have "sum_list (map f (entry b)) = sum_list (map f (take ?n (entry b))) + sum_list (map f (drop ?n (entry b)))"
    by (metis append_take_drop_id map_append sum_list_append)
  also have "\<dots> = sum_list (map f (rotate (unat (out_offs b)) (entry b)))"
    by (simp add: rotate_drop_take add.commute)
  also have "\<dots> = sum_list (map f (contents b))"
    using assms(2) by (simp flip: contents_rotate [OF assms(1)]  add: sum_list_replicate_zero)
  finally show ?thesis
    using assms(1) by (simp add: foreach_eq ring_wf_def)
qed

lemma foreach_set:
  assumes "ring_wf b"
  shows "set (AESD_CIRCULAR_BUFFER_FOREACH b) \<subseteq> insert zero_entry (set (contents b))"
    and "set (contents b) \<subseteq> set (AESD_CIRCULAR_BUFFER_FOREACH b)"
proof -
  have "set (AESD_CIRCULAR_BUFFER_FOREACH b) = set (rotate (unat (out_offs b)) (entry b))"
    using assms by (simp add: foreach_eq ring_wf_def)
  also have "\<dots> = set (contents b) \<union> set (replicate (10 - live_count b) zero_entry)"
    by (simp flip: contents_rotate [OF assms])
  finally show "set (AESD_CIRCULAR_BUFFER_FOREACH b) \<subseteq> insert zero_entry (set (contents b))"
    and "set (contents b) \<subseteq> set (AESD_CIRCULAR_BUFFER_FOREACH b)"
    by (auto split: if_splits)
qed

end
