(* ===== verification/Kernel_Memory.thy ===== *)
theory Kernel_Memory
  imports Prelude
begin

text \<open>
  The memory the driver works on. A heap maps the address of each live \<^verbatim>\<open>kmalloc\<close> block to
  its bytes; accesses outside a block, through \<open>NULL\<close> or through a freed block are faults.
  The kernel's own routines are not part of the repository: what they answer to one call of
  a driver entry point is a parameter, the record \<open>kernel_call\<close>, and what their documentation
  promises is stated as the predicates \<open>alloc_ok\<close>, \<open>copy_in_ok\<close> and \<open>copy_out_ok\<close>.
\<close>

section \<open>Blocks\<close>

type_synonym heap = "nat \<rightharpoonup> byte list"

definition kfree :: "heap \<Rightarrow> ptr \<Rightarrow> fault + heap" where
  "kfree h p = (case p of
     None \<Rightarrow> Inr h
   | Some a \<Rightarrow> if a \<in> dom h then Inr (h(a := None)) else Inl DoubleFree)"

definition load_bytes :: "heap \<Rightarrow> ptr \<Rightarrow> nat \<Rightarrow> nat \<Rightarrow> fault + byte list" where
  "load_bytes h p off n = (case p of
     None \<Rightarrow> Inl NullDeref
   | Some a \<Rightarrow> (case h a of
       None \<Rightarrow> Inl UseAfterFree
     | Some bs \<Rightarrow> if off + n \<le> length bs then Inr (take n (drop off bs)) else Inl OutOfBounds))"

definition store_bytes :: "heap \<Rightarrow> ptr \<Rightarrow> nat \<Rightarrow> byte list \<Rightarrow> fault + heap" where
  "store_bytes h p off xs = (case p of
     None \<Rightarrow> Inl NullDeref
   | Some a \<Rightarrow> (case h a of
       None \<Rightarrow> Inl UseAfterFree
     | Some bs \<Rightarrow> if off + length xs \<le> length bs
         then Inr (h(a \<mapsto> take off bs @ xs @ drop (off + length xs) bs)) else Inl OutOfBounds))"

text \<open>\<open>memcpy(dst + off, src, n)\<close> between two blocks.\<close>

definition memcpy :: "heap \<Rightarrow> ptr \<Rightarrow> nat \<Rightarrow> ptr \<Rightarrow> nat \<Rightarrow> fault + heap" where
  "memcpy h dst off src n =
     (case load_bytes h src 0 n of Inl e \<Rightarrow> Inl e | Inr xs \<Rightarrow> store_bytes h dst off xs)"

section \<open>What the kernel answers\<close>

text \<open>
  \<^item> \<open>interrupted\<close>: \<^verbatim>\<open>mutex_lock_interruptible\<close> was ended by a signal;
  \<^item> \<open>alloc1\<close>, \<open>alloc2\<close>: what the first and the second \<^verbatim>\<open>kmalloc\<close> of the call return,
    with the bytes found in the new block; \<open>None\<close> is a failed allocation;
  \<^item> \<open>copy_in user dst\<close>: the destination after \<^verbatim>\<open>copy_from_user\<close> and the number of bytes
    it could not copy;
  \<^item> \<open>copy_out src\<close>: the number of bytes \<^verbatim>\<open>copy_to_user\<close> could not copy;
  \<^item> \<open>size_llseek f_pos off whence size\<close>: the new file position and the result of
    \<^verbatim>\<open>fixed_size_llseek\<close>.
\<close>

record kernel_call =
  interrupted :: bool
  alloc1 :: "(nat \<times> (nat \<Rightarrow> byte)) option"
  alloc2 :: "(nat \<times> (nat \<Rightarrow> byte)) option"
  copy_in :: "byte list \<Rightarrow> byte list \<Rightarrow> byte list \<times> nat"
  copy_out :: "byte list \<Rightarrow> nat"
  size_llseek :: "loff_t \<Rightarrow> loff_t \<Rightarrow> cint \<Rightarrow> loff_t \<Rightarrow> loff_t \<times> loff_t"

text \<open>An allocation returns a block nobody holds.\<close>

definition alloc_ok :: "kernel_call \<Rightarrow> heap \<Rightarrow> bool" where
  "alloc_ok k h \<longleftrightarrow>
     (\<forall>a j. alloc1 k = Some (a, j) \<longrightarrow> a \<notin> dom h) \<and>
     (\<forall>a j. alloc2 k = Some (a, j) \<longrightarrow> a \<notin> dom h \<and> (\<forall>j'. alloc1 k \<noteq> Some (a, j')))"

text \<open>
  \<^verbatim>\<open>copy_from_user\<close> copies a prefix and pads the rest of the destination with zero bytes.
\<close>

definition copy_in_ok :: "kernel_call \<Rightarrow> bool" where
  "copy_in_ok k \<longleftrightarrow> (\<forall>user dst. length user = length dst \<longrightarrow>
     snd (copy_in k user dst) \<le> length user \<and>
     fst (copy_in k user dst) =
       take (length user - snd (copy_in k user dst)) user @
       replicate (snd (copy_in k user dst)) 0)"

definition copy_out_ok :: "kernel_call \<Rightarrow> bool" where
  "copy_out_ok k \<longleftrightarrow> (\<forall>src. copy_out k src \<le> length src)"

text \<open>A new block of \<open>n\<close> bytes.\<close>

definition fresh_block :: "heap \<Rightarrow> nat \<Rightarrow> (nat \<Rightarrow> byte) \<Rightarrow> nat \<Rightarrow> heap" where
  "fresh_block h a junk n = h(a \<mapsto> map junk [0..<n])"

section \<open>Facts\<close>

lemma load_bytes_Inr:
  "load_bytes h p off n = Inr xs \<longleftrightarrow>
    (\<exists>a bs. p = Some a \<and> h a = Some bs \<and> off + n \<le> length bs \<and> xs = take n (drop off bs))"
  by (auto simp: load_bytes_def split: option.splits)

lemma kfree_NULL [simp]: "kfree h NULL = Inr h"
  by (simp add: kfree_def)

lemma kfree_live [simp]: "a \<in> dom h \<Longrightarrow> kfree h (Some a) = Inr (h(a := None))"
  by (simp add: kfree_def)

lemma kfree_freed [simp]: "a \<notin> dom h \<Longrightarrow> kfree h (Some a) = Inl DoubleFree"
  by (simp add: kfree_def)

text \<open>Two copies that fill a fresh block leave the concatenation in it.\<close>

lemma memcpy_join:
  assumes "h a = Some x" "h b = Some y" "h t = Some junk" "t \<noteq> a" "t \<noteq> b"
    and "n \<le> length x" "m \<le> length y" "length junk = n + m"
  shows "memcpy h (Some t) 0 (Some a) n = Inr (h(t \<mapsto> take n x @ drop n junk))"
    and "memcpy (h(t \<mapsto> take n x @ drop n junk)) (Some t) n (Some b) m =
      Inr (h(t \<mapsto> take n x @ take m y))"
  using assms by (simp_all add: memcpy_def load_bytes_def store_bytes_def min_def)

lemma copy_inD:
  assumes "copy_in_ok k" "length user = length dst" "copy_in k user dst = (dst', left)"
  shows "left \<le> length user" "dst' = take (length user - left) user @ replicate left 0"
    "length dst' = length user"
proof -
  have "snd (copy_in k user dst) \<le> length user \<and> fst (copy_in k user dst) =
      take (length user - snd (copy_in k user dst)) user @ replicate (snd (copy_in k user dst)) 0"
    using assms(1,2) unfolding copy_in_ok_def by blast
  then show "left \<le> length user" "dst' = take (length user - left) user @ replicate left 0"
    "length dst' = length user"
    by (simp_all add: assms(3))
qed

end
