(* ===== verification/Char_Driver.thy ===== *)
theory Char_Driver
  imports Circular_Buffer Kernel_Memory
begin

text \<open>
  \<^verbatim>\<open>aesd-char-driver/main.c\<close> with \<^verbatim>\<open>aesdchar.h\<close> and \<^verbatim>\<open>aesd_ioctl.h\<close>: the character device. The
  state is \<open>struct aesd_dev\<close> with the kernel memory it points into and the registration of
  the device. An entry point takes the kernel's answers, the state and its arguments; it
  returns, blocks on the mutex, or commits a fault. Debug output is left out, but for
  \<open>pdebug_string\<close>.
\<close>

unbundle bit_operations_syntax

section \<open>State\<close>

text \<open>\<open>lock\<close> is true while the mutex is held; handlers are critical sections, so between calls
  it is held only if a handler forgot to release it.\<close>

record aesd_dev =
  circular_buffer :: aesd_circular_buffer
  buffer_entry :: aesd_buffer_entry
  lock :: bool

text \<open>\<open>region\<close>: the device number is allocated; \<open>cdev_live\<close>: the device is registered.\<close>

record kstate = aesd_dev +
  heap :: heap
  aesd_major :: cint
  region :: bool
  cdev_live :: bool

text \<open>\<open>private_data\<close> is true when it points at the device, false when it is still \<open>NULL\<close>.\<close>

record struct_file =
  f_pos :: loff_t
  private_data :: bool

definition EINTR :: ssize_t where "EINTR = 4"
definition ENOMEM :: ssize_t where "ENOMEM = 12"
definition EFAULT :: ssize_t where "EFAULT = 14"
definition EINVAL :: ssize_t where "EINVAL = 22"
definition ERESTARTSYS :: ssize_t where "ERESTARTSYS = 512"

lemmas errno_defs = EINTR_def ENOMEM_def EFAULT_def EINVAL_def ERESTARTSYS_def

section \<open>Locking\<close>

text \<open>The answer is true when the lock was not obtained because of a signal.\<close>

definition mutex_lock_interruptible :: "kernel_call \<Rightarrow> kstate \<Rightarrow> (bool \<times> kstate) outcome" where
  "mutex_lock_interruptible k s =
     (if interrupted k then Returned (True, s)
      else if lock s then Blocked
      else Returned (False, s\<lparr>lock := True\<rparr>))"

definition mutex_unlock :: "kstate \<Rightarrow> kstate" where
  "mutex_unlock s = s\<lparr>lock := False\<rparr>"

section \<open>Open, release\<close>

definition aesd_open :: "struct_file \<Rightarrow> cint \<times> struct_file" where
  "aesd_open filp = (0, filp\<lparr>private_data := True\<rparr>)"

definition aesd_release :: "struct_file \<Rightarrow> cint \<times> struct_file" where
  "aesd_release filp = (0, filp)"

section \<open>Read\<close>

text \<open>Returns the result, the new file position and the bytes that reached the user.\<close>

definition aesd_read ::
  "kernel_call \<Rightarrow> kstate \<Rightarrow> struct_file \<Rightarrow> size_t \<Rightarrow> loff_t \<Rightarrow>
   (ssize_t \<times> loff_t \<times> byte list \<times> kstate) outcome" where
  "aesd_read k s filp count pos =
     obind (mutex_lock_interruptible k s) (\<lambda>(intr, s1).
       if intr then Returned (- EINTR, pos, [], s1)
       else if \<not> private_data filp then Oops NullDeref
       else case aesd_circular_buffer_find_entry_offset_for_fpos (circular_buffer s1) pos of
         None \<Rightarrow> Returned (0, pos, [], mutex_unlock s1)
       | Some (i, entry_offset) \<Rightarrow>
           let e = entry (circular_buffer s1) ! i;
               bytes_available = bsize e - entry_offset;
               bytes_to_copy = min bytes_available count
           in ebind (load_bytes (heap s1) (buffptr e) (unat entry_offset) (unat bytes_to_copy)) (\<lambda>data.
             let bytes_not_copied = copy_out k data
             in if bytes_not_copied > 0
                then Returned (- EFAULT, pos, take (length data - bytes_not_copied) data, mutex_unlock s1)
                else Returned (bytes_to_copy, pos + bytes_to_copy, data, mutex_unlock s1)))"

section \<open>Write\<close>

text \<open>
  The byte \<open>*(k_buf + count - 1)\<close>; for a count of zero the address is before the block.
\<close>

definition last_byte :: "heap \<Rightarrow> ptr \<Rightarrow> size_t \<Rightarrow> fault + byte list" where
  "last_byte h k_buf count =
     (if count = 0 then Inl OutOfBounds else load_bytes h k_buf (unat count - 1) 1)"

text \<open>
  Both branches with a pending partial write build the joined string in a second block and
  make it the partial entry. \<open>None\<close> is the failed second allocation.
\<close>

definition join_partial :: "kernel_call \<Rightarrow> kstate \<Rightarrow> ptr \<Rightarrow> size_t \<Rightarrow> (kstate option) outcome" where
  "join_partial k s k_buf usr_count =
     (let be = buffer_entry s; new_size = bsize be + usr_count
      in case alloc2 k of
           None \<Rightarrow> Returned None
         | Some (t, junk) \<Rightarrow>
             let h1 = fresh_block (heap s) t junk (unat new_size)
             in ebind (memcpy h1 (Some t) 0 (buffptr be) (unat (bsize be))) (\<lambda>h2.
                ebind (memcpy h2 (Some t) (unat (bsize be)) k_buf (unat usr_count)) (\<lambda>h3.
                ebind (if buffptr be \<noteq> NULL then kfree h3 (buffptr be) else Inr h3) (\<lambda>h4.
                ebind (kfree h4 k_buf) (\<lambda>h5.
                  Returned (Some (s\<lparr>heap := h5,
                    buffer_entry := \<lparr>buffptr = Some t, bsize = new_size\<rparr>\<rparr>)))))))"

text \<open>Both newline branches hand the entry to the ring, free what it pushed out and clear it.\<close>

definition commit_entry :: "kstate \<Rightarrow> kstate outcome" where
  "commit_entry s =
     ebind (aesd_circular_buffer_add_entry (circular_buffer s) (buffer_entry s)) (\<lambda>(entry_val, cb).
       ebind (if entry_val \<noteq> NULL then kfree (heap s) entry_val else Inr (heap s)) (\<lambda>h.
         Returned (s\<lparr>circular_buffer := cb, heap := h, buffer_entry := zero_entry\<rparr>)))"

definition aesd_write ::
  "kernel_call \<Rightarrow> kstate \<Rightarrow> struct_file \<Rightarrow> byte list \<Rightarrow> size_t \<Rightarrow> loff_t \<Rightarrow>
   (ssize_t \<times> loff_t \<times> kstate) outcome" where
  "aesd_write k s filp buf count pos =
     obind (mutex_lock_interruptible k s) (\<lambda>(intr, s1).
       if intr then Returned (- EINTR, pos, s1)
       else case alloc1 k of
         None \<Rightarrow> Returned (- ENOMEM, pos, mutex_unlock s1)
       | Some (a, junk) \<Rightarrow>
           let dst = map junk [0..<unat count];
               (landed, left) = copy_in k buf dst;
               s2 = s1\<lparr>heap := (heap s1)(a \<mapsto> landed)\<rparr>;
               k_buf = Some a;
               usr_count = count - of_nat left
           in ebind (last_byte (heap s2) k_buf count) (\<lambda>c.
              if \<not> private_data filp then Oops NullDeref
              else if c \<noteq> [newline] then
                if bsize (buffer_entry s2) = 0 then
                  Returned (usr_count, pos + usr_count,
                    mutex_unlock (s2\<lparr>buffer_entry := \<lparr>buffptr = k_buf, bsize = usr_count\<rparr>\<rparr>))
                else
                  obind (join_partial k s2 k_buf usr_count) (\<lambda>r. case r of
                    None \<Rightarrow> Returned (- ENOMEM, pos, mutex_unlock s2)
                  | Some s3 \<Rightarrow> Returned (usr_count, pos + usr_count, mutex_unlock s3))
              else
                if bsize (buffer_entry s2) = 0 then
                  obind (commit_entry (s2\<lparr>buffer_entry :=
                      \<lparr>buffptr = k_buf, bsize = bsize (buffer_entry s2) + usr_count\<rparr>\<rparr>)) (\<lambda>s3.
                    Returned (usr_count, pos + usr_count, mutex_unlock s3))
                else
                  obind (join_partial k s2 k_buf usr_count) (\<lambda>r. case r of
                    None \<Rightarrow> Returned (- ENOMEM, pos, mutex_unlock s2)
                  | Some s3 \<Rightarrow> obind (commit_entry s3) (\<lambda>s4.
                      Returned (usr_count, pos + usr_count, mutex_unlock s4)))))"

section \<open>Seek\<close>

text \<open>The size the driver reports to \<^verbatim>\<open>fixed_size_llseek\<close>: every slot with a pointer counts.\<close>

definition circ_buff_size :: "aesd_circular_buffer \<Rightarrow> loff_t" where
  "circ_buff_size b =
     sum_list (map (\<lambda>e. if buffptr e \<noteq> NULL then bsize e else 0) (AESD_CIRCULAR_BUFFER_FOREACH b))"

definition aesd_llseek ::
  "kernel_call \<Rightarrow> kstate \<Rightarrow> struct_file \<Rightarrow> loff_t \<Rightarrow> cint \<Rightarrow>
   (loff_t \<times> struct_file \<times> kstate) outcome" where
  "aesd_llseek k s filp off whence =
     obind (mutex_lock_interruptible k s) (\<lambda>(intr, s1).
       if intr then Returned (- EINTR, filp, s1)
       else let (new_pos, ret_offset) =
              size_llseek k (f_pos filp) off whence (circ_buff_size (circular_buffer s1))
            in Returned (ret_offset, filp\<lparr>f_pos := new_pos\<rparr>, mutex_unlock s1))"

section \<open>The seek ioctl\<close>

text \<open>\<open>struct aesd_seekto\<close> and its bytes in memory; the targets are little-endian.\<close>

record aesd_seekto =
  write_cmd :: uint32_t
  write_cmd_offset :: uint32_t

definition le32 :: "byte list \<Rightarrow> uint32_t" where
  "le32 bs = ucast (bs ! 0) OR push_bit 8 (ucast (bs ! 1)) OR
     push_bit 16 (ucast (bs ! 2)) OR push_bit 24 (ucast (bs ! 3))"

definition le32_bytes :: "uint32_t \<Rightarrow> byte list" where
  "le32_bytes w = [ucast w, ucast (drop_bit 8 w), ucast (drop_bit 16 w), ucast (drop_bit 24 w)]"

definition seekto_of_bytes :: "byte list \<Rightarrow> aesd_seekto" where
  "seekto_of_bytes bs = \<lparr>write_cmd = le32 (take 4 bs), write_cmd_offset = le32 (take 4 (drop 4 bs))\<rparr>"

definition seekto_bytes :: "aesd_seekto \<Rightarrow> byte list" where
  "seekto_bytes a = le32_bytes (write_cmd a) @ le32_bytes (write_cmd_offset a)"

text \<open>
  The command number is built by the kernel's macro \<^verbatim>\<open>_IOWR\<close>, a parameter here: its arguments
  are the magic number, the command number and the size of the argument.
\<close>

definition AESD_IOC_MAGIC :: nat where "AESD_IOC_MAGIC = 22"

definition AESDCHAR_IOCSEEKTO :: "(nat \<Rightarrow> nat \<Rightarrow> nat \<Rightarrow> uint32_t) \<Rightarrow> uint32_t" where
  "AESDCHAR_IOCSEEKTO iowr = iowr AESD_IOC_MAGIC 1 8"

text \<open>
  The parameter \<open>write_cmd_offset\<close> of the C function is not used there either: both numbers are
  decoded from nibbles of \<open>write_cmd\<close>. The early return for a command number out of range
  does not release the lock.
\<close>

definition aesd_adjust_file_offset ::
  "kernel_call \<Rightarrow> kstate \<Rightarrow> struct_file \<Rightarrow> uint32_t \<Rightarrow> uint32_t \<Rightarrow>
   (64 word \<times> struct_file \<times> kstate) outcome" where
  "aesd_adjust_file_offset k s filp wcmd wcmd_offset =
     obind (mutex_lock_interruptible k s) (\<lambda>(intr, s1).
       if intr then Returned (- ERESTARTSYS, filp, s1)
       else
         let decode_write_cmd_offset = wcmd AND 0xF;
             decode_write_cmd = drop_bit 4 wcmd AND 0xF
         in if decode_write_cmd \<ge> of_nat AESDCHAR_MAX_WRITE_OPERATIONS_SUPPORTED
            then Returned (- EINVAL, filp, s1)
            else if \<not> private_data filp then Oops NullDeref
            else let retval = aesd_circular_buffer_get_fpos (circular_buffer s1)
                       decode_write_cmd decode_write_cmd_offset
                 in Returned (0, filp\<lparr>f_pos := retval\<rparr>, mutex_unlock s1))"

text \<open>
  \<open>copy_from_user(&seekto, arg, sizeof(seekto) != 0)\<close> asks for one byte, the value of the
  comparison; the other seven bytes of \<open>seekto\<close> are whatever the stack held (\<open>stack\<close>).
  \<open>user\<close> is the memory at \<open>arg\<close>.
\<close>

definition aesd_unlocked_ioctl ::
  "(nat \<Rightarrow> nat \<Rightarrow> nat \<Rightarrow> uint32_t) \<Rightarrow> kernel_call \<Rightarrow> byte list \<Rightarrow> kstate \<Rightarrow> struct_file \<Rightarrow> uint32_t \<Rightarrow>
   byte list \<Rightarrow> (64 word \<times> struct_file \<times> kstate) outcome" where
  "aesd_unlocked_ioctl iowr k stack s filp cmd user =
     (if cmd = AESDCHAR_IOCSEEKTO iowr then
        let n = (if (8 :: nat) \<noteq> 0 then 1 else 0);
            (landed, left) = copy_in k (take n user) (take n stack);
            seekto = seekto_of_bytes (landed @ drop n stack)
        in if left \<noteq> 0 then Returned (- EFAULT, filp, s)
           else aesd_adjust_file_offset k s filp (write_cmd seekto) (write_cmd_offset seekto)
      else Returned (- EINVAL, filp, s))"

section \<open>Loading and unloading the module\<close>

text \<open>
  The kernel's answers to the registration calls: the result and major number of
  \<^verbatim>\<open>alloc_chrdev_region\<close>, and the result of \<^verbatim>\<open>cdev_add\<close>.
\<close>

record chrdev_call =
  alloc_result :: cint
  alloc_major :: cint
  cdev_add_result :: cint

definition aesd_setup_cdev :: "chrdev_call \<Rightarrow> kstate \<Rightarrow> cint \<times> kstate" where
  "aesd_setup_cdev r s =
     (let err = cdev_add_result r
      in (err, if err = 0 then s\<lparr>cdev_live := True\<rparr> else s))"

definition aesd_init_module :: "chrdev_call \<Rightarrow> kstate \<Rightarrow> cint \<times> kstate" where
  "aesd_init_module r s =
     (let result = alloc_result r;
          s1 = s\<lparr>aesd_major := alloc_major r\<rparr>
      in if result <s 0 then (result, s1)
         else
           let s2 = s1\<lparr>region := True\<rparr>;
               s3 = s2\<lparr>circular_buffer := aesd_circular_buffer_init (circular_buffer s2),
                       buffer_entry := zero_entry, lock := False\<rparr>;
               (result, s4) = aesd_setup_cdev r s3
           in (result, if result \<noteq> 0 then s4\<lparr>region := False\<rparr> else s4))"

text \<open>
  The loop of the cleanup frees the same pointer, \<open>aesd_device.buffer_entry.buffptr\<close>, once for
  every used slot; the pointers in the slots are not freed.
\<close>

fun cleanup_loop :: "ptr \<Rightarrow> aesd_buffer_entry list \<Rightarrow> heap \<Rightarrow> fault + heap" where
  "cleanup_loop p [] h = Inr h"
| "cleanup_loop p (e # es) h =
     (if buffptr e \<noteq> NULL
      then (case kfree h p of Inl x \<Rightarrow> Inl x | Inr h' \<Rightarrow> cleanup_loop p es h')
      else cleanup_loop p es h)"

definition aesd_cleanup_module :: "kernel_call \<Rightarrow> kstate \<Rightarrow> kstate outcome" where
  "aesd_cleanup_module k s =
     (let s0 = s\<lparr>cdev_live := False\<rparr>
      in obind (mutex_lock_interruptible k s0) (\<lambda>(intr, s1).
           if intr then Returned s1
           else
             let p = buffptr (buffer_entry s1)
             in ebind (cleanup_loop p (AESD_CIRCULAR_BUFFER_FOREACH (circular_buffer s1)) (heap s1)) (\<lambda>h1.
                ebind (if p \<noteq> NULL then kfree h1 p else Inr h1) (\<lambda>h2.
                  Returned (mutex_unlock (s1\<lparr>heap := h2\<rparr>)\<lparr>region := False\<rparr>)))))"

section \<open>Debug output\<close>

text \<open>
  \<open>PDEBUG\<close> is enabled, and several of its formats print \<open>k_buf\<close> or an entry with \<open>%s\<close>. The
  format reads from the pointer up to the first zero byte; without one in the block it reads
  past the end. The rest of the model leaves debug output out. \<open>write_trace\<close> is the trace of
  \<open>k_buf\<close> right after the copy from the user; the caller's pointer is printed too, which is
  not modelled.
\<close>

definition pdebug_string :: "heap \<Rightarrow> ptr \<Rightarrow> fault + byte list" where
  "pdebug_string h p = (case p of
     None \<Rightarrow> Inr []
   | Some a \<Rightarrow> (case h a of
       None \<Rightarrow> Inl UseAfterFree
     | Some bs \<Rightarrow> if 0 \<in> set bs then Inr (takeWhile (\<lambda>c. c \<noteq> 0) bs) else Inl OutOfBounds))"

definition write_trace :: "kernel_call \<Rightarrow> heap \<Rightarrow> byte list \<Rightarrow> size_t \<Rightarrow> fault + byte list" where
  "write_trace k h buf count = (case alloc1 k of
     None \<Rightarrow> Inr []
   | Some (a, junk) \<Rightarrow>
       pdebug_string (h(a \<mapsto> fst (copy_in k buf (map junk [0..<unat count])))) (Some a))"

end
