(* ===== verification/Driver_Refinement.thy ===== *)
theory Driver_Refinement
  imports Char_Driver
begin

text \<open>
  What the device promises, as a log of its last ten commands and the command being
  assembled, and the proof that the driver of \<^verbatim>\<open>main.c\<close> keeps it: the representation
  invariant, the abstraction, and one commuting diagram for each entry point.
\<close>

section \<open>The abstract device\<close>

record cmd_log =
  commands :: "byte list list"
  pending :: "byte list"

definition spec_append :: "cmd_log \<Rightarrow> byte list \<Rightarrow> cmd_log" where
  "spec_append l bs = l\<lparr>pending := pending l @ bs\<rparr>"

definition spec_commit :: "cmd_log \<Rightarrow> cmd_log" where
  "spec_commit l =
     \<lparr>commands = (if length (commands l) = 10 then tl (commands l) else commands l) @ [pending l],
      pending = []\<rparr>"

definition spec_write :: "cmd_log \<Rightarrow> byte list \<Rightarrow> cmd_log" where
  "spec_write l bs =
     (if bs \<noteq> [] \<and> last bs = newline then spec_commit (spec_append l bs) else spec_append l bs)"

text \<open>What a reader sees: the commands end to end.\<close>

definition log_bytes :: "cmd_log \<Rightarrow> byte list" where
  "log_bytes l = concat (commands l)"

section \<open>Representation\<close>

definition bytes_of :: "heap \<Rightarrow> aesd_buffer_entry \<Rightarrow> byte list" where
  "bytes_of h e = (case buffptr e of
     None \<Rightarrow> []
   | Some a \<Rightarrow> (case h a of None \<Rightarrow> [] | Some bs \<Rightarrow> take (unat (bsize e)) bs))"

definition entry_ok :: "heap \<Rightarrow> aesd_buffer_entry \<Rightarrow> bool" where
  "entry_ok h e \<longleftrightarrow> (case buffptr e of
     None \<Rightarrow> False
   | Some a \<Rightarrow> (case h a of None \<Rightarrow> False | Some bs \<Rightarrow> unat (bsize e) \<le> length bs))"

abbreviation live_entries :: "kstate \<Rightarrow> aesd_buffer_entry list" where
  "live_entries s \<equiv> contents (circular_buffer s)"

definition abs_dev :: "kstate \<Rightarrow> cmd_log" where
  "abs_dev s = \<lparr>commands = map (bytes_of (heap s)) (live_entries s),
                pending = bytes_of (heap s) (buffer_entry s)\<rparr>"

text \<open>
  Every live entry owns a block at least as long as its size, is not empty, and shares its
  block with no other entry; so does the partial entry, when it has a block.
\<close>

definition core_inv :: "kstate \<Rightarrow> bool" where
  "core_inv s \<longleftrightarrow>
     ring_wf (circular_buffer s) \<and>
     (\<forall>e \<in> set (live_entries s). entry_ok (heap s) e \<and> bsize e \<noteq> 0) \<and>
     distinct (map buffptr (live_entries s)) \<and>
     (if buffptr (buffer_entry s) = NULL then bsize (buffer_entry s) = 0
      else entry_ok (heap s) (buffer_entry s) \<and>
           buffptr (buffer_entry s) \<notin> buffptr ` set (live_entries s))"

definition dev_inv :: "kstate \<Rightarrow> bool" where
  "dev_inv s \<longleftrightarrow> core_inv s \<and> \<not> lock s"

text \<open>Blocks the driver can still reach, and blocks it allocated but lost.\<close>

definition owned :: "kstate \<Rightarrow> nat set" where
  "owned s = {a. Some a \<in> buffptr ` set (buffer_entry s # live_entries s)}"

definition leaked :: "kstate \<Rightarrow> nat set" where
  "leaked s = dom (heap s) - owned s"

section \<open>Frame facts\<close>

lemma bytes_of_upd [simp]: "buffptr e \<noteq> Some a \<Longrightarrow> bytes_of (h(a := x)) e = bytes_of h e"
  by (auto simp: bytes_of_def split: option.splits)

lemma entry_ok_upd [simp]: "buffptr e \<noteq> Some a \<Longrightarrow> entry_ok (h(a := x)) e = entry_ok h e"
  by (auto simp: entry_ok_def split: option.splits)

lemma entry_okE:
  assumes "entry_ok h e"
  obtains a bs where "buffptr e = Some a" "h a = Some bs" "unat (bsize e) \<le> length bs"
    "bytes_of h e = take (unat (bsize e)) bs"
  using assms by (auto simp: entry_ok_def bytes_of_def split: option.splits)

lemma zero_entry_simps [simp]:
  "buffptr zero_entry = NULL" "bsize zero_entry = 0" "bytes_of h zero_entry = []"
  by (simp_all add: zero_entry_def bytes_of_def)

lemma entry_ok_live [simp]:
  "h a = Some bs \<Longrightarrow> entry_ok h \<lparr>buffptr = Some a, bsize = n\<rparr> \<longleftrightarrow> unat n \<le> length bs"
  by (simp add: entry_ok_def)

lemma bytes_of_live [simp]:
  "h a = Some bs \<Longrightarrow> bytes_of h \<lparr>buffptr = Some a, bsize = n\<rparr> = take (unat n) bs"
  by (simp add: bytes_of_def)

lemma length_bytes_of: "entry_ok h e \<Longrightarrow> length (bytes_of h e) = unat (bsize e)"
  by (erule entry_okE) simp

lemma length_pending: "core_inv s \<Longrightarrow> length (pending (abs_dev s)) = unat (bsize (buffer_entry s))"
  by (cases "buffptr (buffer_entry s)")
    (auto simp: core_inv_def abs_dev_def length_bytes_of, simp add: bytes_of_def)

lemma length_commands: "length (commands (abs_dev s)) \<le> 10"
  by (simp add: abs_dev_def live_count_le)

lemma entry_ok_dom: "entry_ok h e \<Longrightarrow> a \<notin> dom h \<Longrightarrow> buffptr e \<noteq> Some a"
  by (auto elim: entry_okE)

lemma entry_ok_not_NULL: "entry_ok h e \<Longrightarrow> buffptr e \<noteq> NULL"
  by (auto elim: entry_okE)

lemma core_inv_fresh:
  assumes "core_inv s" "a \<notin> dom (heap s)"
  shows "\<forall>e \<in> set (live_entries s). buffptr e \<noteq> Some a" "buffptr (buffer_entry s) \<noteq> Some a"
    "a \<notin> owned s"
proof -
  show 1: "\<forall>e \<in> set (live_entries s). buffptr e \<noteq> Some a"
    using assms by (auto simp: core_inv_def dest: entry_ok_dom)
  show 2: "buffptr (buffer_entry s) \<noteq> Some a"
    using assms by (auto simp: core_inv_def dest: entry_ok_dom split: if_splits)
  show "a \<notin> owned s"
    using 1 2 by (auto simp: owned_def)
qed

lemma core_inv_lock [simp]: "core_inv (s\<lparr>lock := b\<rparr>) = core_inv s"
  by (simp add: core_inv_def)

lemma abs_dev_lock [simp]: "abs_dev (s\<lparr>lock := b\<rparr>) = abs_dev s"
  by (simp add: abs_dev_def)

lemma leaked_lock [simp]: "leaked (s\<lparr>lock := b\<rparr>) = leaked s"
  by (simp add: leaked_def owned_def)

section \<open>Committing an entry\<close>

lemma commit_entry_ok:
  assumes inv: "core_inv s" and p: "buffptr (buffer_entry s) \<noteq> NULL" and n: "bsize (buffer_entry s) \<noteq> 0"
  shows "\<exists>s'. commit_entry s = Returned s' \<and> core_inv s' \<and> abs_dev s' = spec_commit (abs_dev s) \<and>
    leaked s' = leaked s \<and> lock s' = lock s \<and> buffer_entry s' = zero_entry"
proof -
  let ?b = "circular_buffer s" and ?e = "buffer_entry s"
  have wf: "ring_wf ?b" using inv by (simp add: core_inv_def)
  obtain p b' where add: "aesd_circular_buffer_add_entry ?b ?e = Inr (p, b')"
    using ring.push_total [OF wf] by blast
  have c: "contents b' = (if length (contents ?b) = 10 then tl (contents ?b) else contents ?b) @ [?e]"
    by (rule ring.push_items [OF wf add])
  have r: "p = (if length (contents ?b) = 10 then buffptr (hd (contents ?b)) else NULL)"
    by (rule ring.push_tag [OF wf add])
  have wf': "ring_wf b'" by (rule ring.push_good [OF wf add])
  have live: "\<forall>e \<in> set (contents ?b). entry_ok (heap s) e \<and> bsize e \<noteq> 0"
    and dis: "distinct (map buffptr (contents ?b))"
    and be: "entry_ok (heap s) ?e" "buffptr ?e \<notin> buffptr ` set (contents ?b)"
    using inv p by (simp_all add: core_inv_def)
  show ?thesis
  proof (cases "length (contents ?b) = 10")
    case False
    then have "commit_entry s = Returned (s\<lparr>circular_buffer := b', heap := heap s, buffer_entry := zero_entry\<rparr>)"
      using add r by (simp add: commit_entry_def)
    moreover have "contents b' = contents ?b @ [?e]" using c False by simp
    ultimately show ?thesis
      using False wf' live dis be n
      by (auto simp: core_inv_def abs_dev_def spec_commit_def leaked_def owned_def)
  next
    case True
    then obtain x xs where xs: "contents ?b = x # xs" by (cases "contents ?b") auto
    have "entry_ok (heap s) x" using live xs by simp
    then obtain a where a: "buffptr x = Some a" "a \<in> dom (heap s)"
      by (rule entry_okE) (simp add: domI)
    have "commit_entry s = Returned (s\<lparr>circular_buffer := b', heap := (heap s)(a := None), buffer_entry := zero_entry\<rparr>)"
      using add r a True xs by (simp add: commit_entry_def)
    moreover have "contents b' = xs @ [?e]" using c True xs by simp
    moreover have "\<forall>e \<in> set xs. buffptr e \<noteq> Some a"
      using dis xs a by (auto simp: image_iff)
    moreover have "buffptr ?e \<noteq> Some a" using be xs a by auto
    ultimately show ?thesis
      using True xs wf' live dis be n a
      by (auto simp: core_inv_def abs_dev_def spec_commit_def leaked_def owned_def)
  qed
qed

section \<open>Joining a partial write\<close>

lemma join_partial_ok:
  assumes inv: "core_inv s" and sz: "bsize (buffer_entry s) \<noteq> 0"
    and a: "heap s a = Some landed" "a \<notin> owned s" "unat usr_count \<le> length landed"
    and t: "alloc2 k = Some (t, junk)" "t \<notin> dom (heap s)"
    and no_wrap: "unat (bsize (buffer_entry s)) + unat usr_count < 2 ^ 64"
  shows "\<exists>s'. join_partial k s (Some a) usr_count = Returned (Some s') \<and> core_inv s' \<and>
    abs_dev s' = spec_append (abs_dev s) (take (unat usr_count) landed) \<and>
    leaked s' = leaked s - {a} \<and> lock s' = lock s \<and>
    buffptr (buffer_entry s') \<noteq> NULL \<and> bsize (buffer_entry s') = bsize (buffer_entry s) + usr_count"
proof -
  let ?be = "buffer_entry s" and ?h = "heap s"
  have ok: "entry_ok ?h ?be" and nin: "buffptr ?be \<notin> buffptr ` set (live_entries s)"
    using inv sz by (auto simp: core_inv_def split: if_splits)
  from ok obtain b x where b: "buffptr ?be = Some b" "?h b = Some x" "unat (bsize ?be) \<le> length x"
      "bytes_of ?h ?be = take (unat (bsize ?be)) x"
    by (rule entry_okE)
  have ab: "a \<noteq> b" using a(2) b(1) by (auto simp: owned_def)
  have t_ne: "t \<noteq> a" "t \<noteq> b" using t(2) a(1) b(2) by auto
  have len: "unat (bsize ?be + usr_count) = unat (bsize ?be) + unat usr_count"
    using no_wrap by (rule unat_add_size)
  let ?junk = "map junk [0..<unat (bsize ?be) + unat usr_count]"
  let ?x = "take (unat (bsize ?be)) x" and ?y = "take (unat usr_count) landed"
  let ?h1 = "?h(t \<mapsto> ?junk)"
  have m1: "memcpy ?h1 (Some t) 0 (Some b) (unat (bsize ?be)) =
      Inr (?h1(t \<mapsto> ?x @ drop (unat (bsize ?be)) ?junk))"
    and m2: "memcpy (?h1(t \<mapsto> ?x @ drop (unat (bsize ?be)) ?junk)) (Some t) (unat (bsize ?be)) (Some a) (unat usr_count) =
      Inr (?h1(t \<mapsto> ?x @ ?y))"
    using a b t_ne by (intro memcpy_join [of ?h1 b x a landed t ?junk]; simp)+
  let ?s' = "s\<lparr>heap := (?h(t \<mapsto> ?x @ ?y))(b := None, a := None),
      buffer_entry := \<lparr>buffptr = Some t, bsize = bsize ?be + usr_count\<rparr>\<rparr>"
  have eq: "join_partial k s (Some a) usr_count = Returned (Some ?s')"
    using m1 m2 t t_ne a(1) b(1,2) ab
    by (simp add: join_partial_def Let_def fresh_block_def len domIff)
  have free: "\<forall>e \<in> set (live_entries s). buffptr e \<noteq> Some t \<and> buffptr e \<noteq> Some a \<and> buffptr e \<noteq> Some b"
    using core_inv_fresh(1) [OF inv t(2)] a(2) nin b(1) by (force simp: owned_def)
  have "core_inv ?s'"
    using inv free a(3) b(3) t_ne by (auto simp: core_inv_def len)
  moreover have "abs_dev ?s' = spec_append (abs_dev s) ?y"
    using free b(4) a(3) b(3) t_ne
    by (auto simp: abs_dev_def spec_append_def len)
  moreover have "leaked ?s' = leaked s - {a}"
    using b(1) t(2) t_ne free by (auto simp: leaked_def owned_def)
  ultimately show ?thesis using eq by auto
qed

end
