(* ===== verification/Driver_Read.thy ===== *)
theory Driver_Read
  imports Driver_Refinement
begin

text \<open>
  \<^verbatim>\<open>aesd_read\<close> against the abstract device: a read at a position inside the log returns a
  non-empty piece of it starting there, a read at or past its end returns nothing.
\<close>

section \<open>Positions in the log\<close>

lemma drop_concat_locate:
  "locate (map length xss) n = Some (i, d) \<Longrightarrow>
    drop n (concat xss) = drop d (xss ! i) @ concat (drop (Suc i) xss)"
proof (induction xss arbitrary: n i)
  case Nil
  then show ?case by simp
next
  case (Cons xs xss)
  show ?case
  proof (cases "n < length xs")
    case True
    with Cons.prems show ?thesis by auto
  next
    case False
    with Cons.prems obtain j where "locate (map length xss) (n - length xs) = Some (j, d)" "i = Suc j"
      by auto
    with False Cons.IH show ?thesis by simp
  qed
qed

text \<open>The ring counts its bytes in an \<open>int\<close>; the search is right while they number less than \<open>2^31\<close>.\<close>

definition in_range :: "kstate \<Rightarrow> bool" where
  "in_range s \<longleftrightarrow> sum_list (csizes (circular_buffer s)) < 2 ^ 31"

lemma csizes_commands:
  "core_inv s \<Longrightarrow> csizes (circular_buffer s) = map length (commands (abs_dev s))"
  by (auto simp: csizes_def abs_dev_def core_inv_def length_bytes_of)

lemma length_log_bytes:
  "core_inv s \<Longrightarrow> length (log_bytes (abs_dev s)) = sum_list (csizes (circular_buffer s))"
  by (simp add: csizes_commands log_bytes_def length_concat)

lemma core_inv_sizes:
  "core_inv s \<Longrightarrow> csizes (circular_buffer s) = [] \<or> 0 < hd (csizes (circular_buffer s))"
  by (cases "live_entries s") (auto simp: core_inv_def csizes_def unat_gt_0)

lemma core_inv_sizes_nonzero: "core_inv s \<Longrightarrow> 0 \<notin> set (csizes (circular_buffer s))"
  by (auto simp: core_inv_def csizes_def unsigned_eq_0_iff)

section \<open>The read path\<close>

lemma read_locate:
  assumes inv: "dev_inv s" "in_range s" and call: "private_data filp" "\<not> interrupted k"
  shows "aesd_read k s filp count pos = (case locate (csizes (circular_buffer s)) (unat pos) of
      None \<Rightarrow> Returned (0, pos, [], s)
    | Some (i, d) \<Rightarrow>
        let n = min (of_nat (csizes (circular_buffer s) ! i - d)) count;
            data = take (unat n) (drop d (commands (abs_dev s) ! i))
        in if copy_out k data > 0
           then Returned (- EFAULT, pos, take (length data - copy_out k data) data, s)
           else Returned (n, pos + n, data, s))"
proof -
  let ?b = "circular_buffer s"
  have core: "core_inv s" "\<not> lock s" using inv by (auto simp: dev_inv_def)
  have wf: "ring_wf ?b" using core by (simp add: core_inv_def)
  have find: "aesd_circular_buffer_find_entry_offset_for_fpos ?b pos =
      map_option (\<lambda>(j, d). (slot ?b j, of_nat d)) (locate (csizes ?b) (unat pos))"
    using wf inv(2) core_inv_sizes [OF core(1)] by (intro find_entry_locate) (simp_all add: in_range_def)
  have unlock: "mutex_unlock (s\<lparr>lock := True\<rparr>) = s"
    using core(2) by (simp add: mutex_unlock_def)
  show ?thesis
  proof (cases "locate (csizes ?b) (unat pos)")
    case None
    then show ?thesis
      using core(2) call find unlock by (simp add: aesd_read_def mutex_lock_interruptible_def)
  next
    case (Some r)
    obtain i d where r: "r = (i, d)" by (cases r)
    let ?e = "live_entries s ! i"
    have i: "i < live_count ?b" "d < csizes ?b ! i"
      using Some r by (auto simp: locate_Some)
    then have "?e \<in> set (live_entries s)" by (simp add: nth_mem)
    then have ok: "entry_ok (heap s) ?e" using core(1) by (auto simp: core_inv_def)
    then obtain a bs where a: "buffptr ?e = Some a" "heap s a = Some bs" "unat (bsize ?e) \<le> length bs"
        "bytes_of (heap s) ?e = take (unat (bsize ?e)) bs"
      by (rule entry_okE)
    have sz: "csizes ?b ! i = unat (bsize ?e)" using i by (simp add: csizes_def)
    have d: "d < unat (bsize ?e)" using i sz by simp
    have du: "unat (of_nat d :: size_t) = d"
      using d by (intro unat_of_nat_le [of _ "bsize ?e"]) simp
    have avail: "bsize ?e - of_nat d = of_nat (unat (bsize ?e) - d)"
      using d by (metis less_imp_le of_nat_diff of_nat_unat ucast_id)
    have av: "unat (of_nat (unat (bsize ?e) - d) :: size_t) = unat (bsize ?e) - d"
      by (intro unat_of_nat_le [of _ "bsize ?e"]) simp
    define n where "n = min (of_nat (unat (bsize ?e) - d)) count"
    have nle: "unat n \<le> unat (bsize ?e) - d"
      using av by (metis min.cobounded1 n_def word_le_nat_alt)
    have en: "entry ?b ! slot ?b i = ?e" using i by (simp add: nth_contents)
    have load: "load_bytes (heap s) (buffptr ?e) d (unat n) =
        Inr (take (unat n) (drop d (commands (abs_dev s) ! i)))"
      using a i d nle by (simp add: load_bytes_def abs_dev_def drop_take)
    show ?thesis
      using core(2) call find unlock Some r en load du avail sz
      by (simp add: aesd_read_def mutex_lock_interruptible_def Let_def n_def)
  qed
qed

lemma read_ok:
  assumes inv: "dev_inv s" "in_range s" and call: "private_data filp" "\<not> interrupted k"
    and copied: "\<And>src. copy_out k src = 0"
  shows "\<exists>n data. aesd_read k s filp count pos = Returned (n, pos + n, data, s) \<and>
    data = take (unat n) (drop (unat pos) (log_bytes (abs_dev s))) \<and>
    length data = unat n \<and> unat n \<le> unat count \<and>
    (data = [] \<longleftrightarrow> count = 0 \<or> length (log_bytes (abs_dev s)) \<le> unat pos)"
proof -
  have core: "core_inv s" using inv by (simp add: dev_inv_def)
  let ?cs = "commands (abs_dev s)"
  note sizes = csizes_commands [OF core]
  show ?thesis
  proof (cases "locate (csizes (circular_buffer s)) (unat pos)")
    case None
    then have "length (log_bytes (abs_dev s)) \<le> unat pos"
      by (simp add: length_log_bytes [OF core] locate_None_iff)
    then show ?thesis
      using None read_locate [OF inv call, of count pos] by (intro exI [of _ 0]) simp
  next
    case (Some r)
    obtain i d where r: "r = (i, d)" by (cases r)
    have i: "i < length ?cs" "d < length (?cs ! i)"
      using Some r by (auto simp: locate_Some sizes)
    define n where "n = min (of_nat (length (?cs ! i) - d)) count"
    have "length (?cs ! i) = csizes (circular_buffer s) ! i" using i by (simp add: sizes)
    also have "\<dots> \<le> sum_list (csizes (circular_buffer s))"
      using i by (intro elem_le_sum_list) (simp add: sizes)
    finally have av: "unat (of_nat (length (?cs ! i) - d) :: size_t) = length (?cs ! i) - d"
      using inv(2) by (intro unat_of_nat_size) (simp add: in_range_def)
    have n: "unat n = min (length (?cs ! i) - d) (unat count)"
      by (simp add: n_def min_def word_le_nat_alt av)
    have dc: "drop (unat pos) (log_bytes (abs_dev s)) = drop d (?cs ! i) @ concat (drop (Suc i) ?cs)"
      using drop_concat_locate [of ?cs] Some r by (simp add: sizes log_bytes_def)
    let ?data = "take (unat n) (drop d (?cs ! i))"
    have len: "length ?data = unat n" using n by simp
    have in_log: "unat pos < length (log_bytes (abs_dev s))"
      using dc i by (metis append_is_Nil_conv drop_eq_Nil not_le)
    have zero: "count = 0 \<longleftrightarrow> unat count = 0" by (simp add: unsigned_eq_0_iff)
    show ?thesis
    proof (intro exI conjI)
      show "aesd_read k s filp count pos = Returned (n, pos + n, ?data, s)"
        using Some r read_locate [OF inv call, of count pos] copied i
        by (simp add: Let_def n_def sizes)
      show "?data = take (unat n) (drop (unat pos) (log_bytes (abs_dev s)))"
        using n by (simp add: dc)
      show "length ?data = unat n" by (rule len)
      show "unat n \<le> unat count" using n by simp
      have "?data = [] \<longleftrightarrow> unat n = 0" using len by (metis length_0_conv)
      then show "?data = [] \<longleftrightarrow> count = 0 \<or> length (log_bytes (abs_dev s)) \<le> unat pos"
        using n i in_log zero by auto
    qed
  qed
qed

lemma read_fault:
  assumes inv: "dev_inv s" "in_range s" and call: "private_data filp" "\<not> interrupted k"
    and copied: "\<And>src. copy_out k src > 0" and inside: "unat pos < length (log_bytes (abs_dev s))"
  shows "\<exists>data. aesd_read k s filp count pos = Returned (- EFAULT, pos, data, s)"
proof -
  have "core_inv s" using inv by (simp add: dev_inv_def)
  with inside have "locate (csizes (circular_buffer s)) (unat pos) \<noteq> None"
    by (simp add: length_log_bytes locate_None_iff)
  then show ?thesis
    using read_locate [OF inv call, of count pos] copied by (auto simp: Let_def)
qed

section \<open>Reading as a stream\<close>

text \<open>One \<open>read\<close> call with a kernel that copies everything, as a function of lengths and positions.\<close>

definition calm :: kernel_call where
  "calm = \<lparr>interrupted = False, alloc1 = None, alloc2 = None,
           copy_in = (\<lambda>user dst. (user, 0)), copy_out = (\<lambda>src. 0),
           size_llseek = (\<lambda>pos off whence size. (pos, 0))\<rparr>"

definition opened :: struct_file where
  "opened = snd (aesd_open \<lparr>f_pos = 0, private_data = False\<rparr>)"

lemma calm_simps [simp]:
  "\<not> interrupted calm" "alloc1 calm = None" "alloc2 calm = None" "copy_out calm src = 0" "private_data opened"
  by (simp_all add: calm_def opened_def aesd_open_def)

definition dev_read :: "kstate \<Rightarrow> nat \<Rightarrow> nat \<Rightarrow> byte list" where
  "dev_read s pos n = (case aesd_read calm s opened (of_nat n) (of_nat pos) of
     Returned (r, pos', data, s') \<Rightarrow> data
   | _ \<Rightarrow> [])"

interpretation dev: byte_stream dev_read "\<lambda>s. log_bytes (abs_dev s)" "\<lambda>s. dev_inv s \<and> in_range s" "2 ^ 63"
proof (unfold_locales, goal_cases)
  case (1 s)
  then show ?case
    using length_log_bytes [of s] by (simp add: dev_inv_def in_range_def)
next
  case (2 s pos n)
  have u: "unat (of_nat pos :: size_t) = pos" "unat (of_nat n :: size_t) = n"
    using 2 by (auto intro!: unat_of_nat_size)
  have good: "dev_inv s" "in_range s" using 2 by auto
  obtain m data where "aesd_read calm s opened (of_nat n) (of_nat pos) = Returned (m, of_nat pos + m, data, s)"
    "data = take (unat m) (drop pos (log_bytes (abs_dev s)))" "length data = unat m" "unat m \<le> n"
    "data = [] \<longleftrightarrow> (of_nat n :: size_t) = 0 \<or> length (log_bytes (abs_dev s)) \<le> pos"
    using read_ok [OF good calm_simps(5,1,4), of "of_nat n" "of_nat pos", unfolded u] by blast
  note r = this
  have "(of_nat n :: size_t) = 0 \<longleftrightarrow> n = 0"
    using u(2) by (cases "n = 0") force+
  with r show ?case by (simp add: dev_read_def)
qed

end
