(* ===== verification/Driver_Write.thy ===== *)
theory Driver_Write
  imports Driver_Refinement
begin

text \<open>
  \<^verbatim>\<open>aesd_write\<close> against the abstract device: a write that gets its memory appends what was
  copied and commits the command at a newline; the failures and what they leave behind.
\<close>

section \<open>The write path\<close>

lemma last_byte_live:
  assumes "h a = Some bs" "length bs = unat n" "n \<noteq> 0"
  shows "last_byte h (Some a) n = Inr [last bs]"
proof -
  have "0 < unat n" using assms(3) by (simp add: unat_gt_0)
  with assms(2) have "bs \<noteq> []" by auto
  then have "drop (length bs - 1) bs = [last bs]"
    by (metis append_butlast_last_id append_eq_conv_conj length_butlast)
  with \<open>0 < unat n\<close> show ?thesis
    using assms by (simp add: last_byte_def load_bytes_def)
qed

lemma core_inv_add_block:
  assumes "core_inv s" "a \<notin> dom (heap s)"
  shows "core_inv (s\<lparr>heap := (heap s)(a \<mapsto> bs)\<rparr>)"
    and "abs_dev (s\<lparr>heap := (heap s)(a \<mapsto> bs)\<rparr>) = abs_dev s"
    and "leaked (s\<lparr>heap := (heap s)(a \<mapsto> bs)\<rparr>) = insert a (leaked s)"
  using core_inv_fresh [OF assms] assms
  by (auto simp: core_inv_def abs_dev_def leaked_def owned_def)

text \<open>
  The four branches of a write after the copy, as one: \<open>aesd_write\<close> repeats the code for the
  two newline cases. \<open>aesd_write_tail\<close> proves that it is the same.
\<close>

definition write_tail :: "kernel_call \<Rightarrow> kstate \<Rightarrow> ptr \<Rightarrow> bool \<Rightarrow> size_t \<Rightarrow> loff_t \<Rightarrow> (ssize_t \<times> loff_t \<times> kstate) outcome" where
  "write_tail k s k_buf has_newline usr_count pos =
     (let fin = (\<lambda>s'. Returned (usr_count, pos + usr_count, mutex_unlock s'));
          fin' = (\<lambda>s'. if has_newline then obind (commit_entry s') fin else fin s')
      in if bsize (buffer_entry s) = 0
         then fin' (s\<lparr>buffer_entry := \<lparr>buffptr = k_buf, bsize = usr_count\<rparr>\<rparr>)
         else obind (join_partial k s k_buf usr_count) (\<lambda>r. case r of
                None \<Rightarrow> Returned (- ENOMEM, pos, mutex_unlock s) | Some s' \<Rightarrow> fin' s'))"

lemma aesd_write_tail:
  assumes "\<not> interrupted k" "\<not> lock s" "private_data filp" "alloc1 k = Some (a, junk)"
    and "copy_in k buf (map junk [0..<unat count]) = (landed, left)" "length landed = unat count" "count \<noteq> 0"
  shows "aesd_write k s filp buf count pos =
    write_tail k (s\<lparr>lock := True, heap := (heap s)(a \<mapsto> landed)\<rparr>) (Some a) (last landed = newline)
      (count - of_nat left) pos"
proof -
  have l: "last_byte ((heap s)(a \<mapsto> landed)) (Some a) count = Inr [last landed]"
    using assms by (intro last_byte_live) auto
  show ?thesis
    using assms l
    by (auto simp: aesd_write_def mutex_lock_interruptible_def write_tail_def Let_def
        intro!: arg_cong2 [where f = obind] ext split: option.splits)
qed

lemma write_tail_ok:
  assumes inv: "core_inv s" and a: "heap s a = Some landed" "a \<notin> owned s" "unat n \<le> length landed"
    and nl: "nl \<Longrightarrow> n \<noteq> 0"
    and t: "bsize (buffer_entry s) \<noteq> 0 \<Longrightarrow> alloc2 k = Some (t, junk) \<and> t \<notin> dom (heap s)"
    and no_wrap: "unat (bsize (buffer_entry s)) + unat n < 2 ^ 64"
  shows "\<exists>s'. write_tail k s (Some a) nl n pos = Returned (n, pos + n, s') \<and> dev_inv s' \<and>
    abs_dev s' = (if nl then spec_commit else id) (spec_append (abs_dev s) (take (unat n) landed)) \<and>
    ((bsize (buffer_entry s) = 0 \<longrightarrow> buffptr (buffer_entry s) = NULL) \<longrightarrow> leaked s' = leaked s - {a})"
proof -
  let ?l = "spec_append (abs_dev s) (take (unat n) landed)"
  let ?fin = "\<lambda>s'. if nl then obind (commit_entry s') (\<lambda>s'. Returned (n, pos + n, mutex_unlock s'))
      else Returned (n, pos + n, mutex_unlock s')"
  have fin: "\<exists>s'. ?fin s1 = Returned (n, pos + n, s') \<and> dev_inv s' \<and>
      abs_dev s' = (if nl then spec_commit else id) ?l \<and> leaked s' = leaked s1"
    if "core_inv s1" "abs_dev s1 = ?l" "nl \<Longrightarrow> buffptr (buffer_entry s1) \<noteq> NULL \<and> bsize (buffer_entry s1) \<noteq> 0" for s1
    using commit_entry_ok [OF that(1)] that
    by (cases nl) (auto simp: dev_inv_def mutex_unlock_def)
  show ?thesis
  proof (cases "bsize (buffer_entry s) = 0")
    case True
    let ?s1 = "s\<lparr>buffer_entry := \<lparr>buffptr = Some a, bsize = n\<rparr>\<rparr>"
    have free: "\<forall>e \<in> set (live_entries s). buffptr e \<noteq> Some a" "buffptr (buffer_entry s) \<noteq> Some a"
      using a(2) by (force simp: owned_def)+
    have e: "bytes_of (heap s) (buffer_entry s) = []"
      using True by (simp add: bytes_of_def split: option.splits)
    have "core_inv ?s1"
      using inv free a by (auto simp: core_inv_def)
    moreover have "abs_dev ?s1 = ?l"
      using a e by (simp add: abs_dev_def spec_append_def)
    ultimately obtain s2 where s2: "?fin ?s1 = Returned (n, pos + n, s2)" "dev_inv s2"
        "abs_dev s2 = (if nl then spec_commit else id) ?l" "leaked s2 = leaked ?s1"
      using fin [of ?s1] nl by (simp only: if_False simp_thms) fastforce
    have "leaked ?s1 = leaked s - {a}" if "buffptr (buffer_entry s) = NULL"
      using that by (auto simp: leaked_def owned_def)
    with s2 True show ?thesis
      by (intro exI [of _ s2]) (simp add: write_tail_def Let_def)
  next
    case False
    with t have t': "alloc2 k = Some (t, junk)" "t \<notin> dom (heap s)" by auto
    obtain s1 where s1: "join_partial k s (Some a) n = Returned (Some s1)" "core_inv s1" "abs_dev s1 = ?l"
        "leaked s1 = leaked s - {a}" "buffptr (buffer_entry s1) \<noteq> NULL"
        "bsize (buffer_entry s1) = bsize (buffer_entry s) + n"
      using join_partial_ok [OF inv False a t' no_wrap] by blast
    have "bsize (buffer_entry s) + n \<noteq> 0"
      using False no_wrap by (metis add_is_0 unat_0 unat_add_size unsigned_eq_0_iff)
    with s1 False fin [of s1] show ?thesis
      by (auto simp: write_tail_def Let_def)
  qed
qed

text \<open>What lies in the new block after the copy, of which \<open>left\<close> bytes did not arrive.\<close>

lemma copied_block:
  fixes count :: size_t
  assumes "copy_in_ok k" "copy_in k buf (map junk [0..<unat count]) = (landed, left)"
    and "length buf = unat count" "count \<noteq> 0"
  shows "length landed = unat count" "unat (count - of_nat left) = unat count - left"
    "take (unat (count - of_nat left)) landed = take (unat count - left) buf"
    "last landed = newline \<longleftrightarrow> left = 0 \<and> last buf = newline"
    "left = 0 \<Longrightarrow> count - of_nat left \<noteq> 0"
proof -
  have L: "left \<le> unat count" "landed = take (unat count - left) buf @ replicate left 0"
      "length landed = unat count"
    using copy_inD [OF assms(1) _ assms(2)] assms(3) by auto
  show "length landed = unat count" by (rule L(3))
  have "unat count < 2 ^ LENGTH(64)" by (rule unsigned_less)
  then have "left < 2 ^ 64" using L(1) by simp
  then show n: "unat (count - of_nat left) = unat count - left"
    using L(1) by (simp add: unat_sub_if' unat_of_nat_size)
  show "take (unat (count - of_nat left)) landed = take (unat count - left) buf"
    using L assms(3) n by simp
  have "0 < unat count" using assms(4) by (simp add: unat_gt_0)
  then show "last landed = newline \<longleftrightarrow> left = 0 \<and> last buf = newline"
    using L assms(3) by (cases "left = 0") auto
  show "left = 0 \<Longrightarrow> count - of_nat left \<noteq> 0" using assms(4) by simp
qed

lemma write_ok:
  assumes inv: "dev_inv s" and call: "private_data filp" "\<not> interrupted k"
    and k: "alloc1 k = Some (a, junk)" "alloc_ok k (heap s)" "copy_in_ok k"
    and buf: "length buf = unat count" "count \<noteq> 0"
    and alloc2: "bsize (buffer_entry s) \<noteq> 0 \<Longrightarrow> alloc2 k \<noteq> None"
    and no_wrap: "unat (bsize (buffer_entry s)) + unat count < 2 ^ 64"
    and left: "left = snd (copy_in k buf (map junk [0..<unat count]))"
  shows "\<exists>s'. aesd_write k s filp buf count pos = Returned (count - of_nat left, pos + (count - of_nat left), s') \<and>
    dev_inv s' \<and>
    abs_dev s' = (if left = 0 then spec_write (abs_dev s) buf
                  else spec_append (abs_dev s) (take (unat count - left) buf)) \<and>
    ((bsize (buffer_entry s) = 0 \<longrightarrow> buffptr (buffer_entry s) = NULL) \<longrightarrow> leaked s' = leaked s)"
proof -
  define landed where "landed = fst (copy_in k buf (map junk [0..<unat count]))"
  have ci: "copy_in k buf (map junk [0..<unat count]) = (landed, left)"
    by (simp add: landed_def left)
  define n where "n = count - of_nat left"
  have L: "length landed = unat count" and n: "unat n = unat count - left"
    and tk: "take (unat n) landed = take (unat count - left) buf"
    and nl: "last landed = newline \<longleftrightarrow> left = 0 \<and> last buf = newline" and n0: "left = 0 \<Longrightarrow> n \<noteq> 0"
    using copied_block [OF k(3) ci buf] by (simp_all add: n_def)
  have a: "a \<notin> dom (heap s)" using k(1,2) by (auto simp: alloc_ok_def)
  let ?s2 = "s\<lparr>lock := True, heap := (heap s)(a \<mapsto> landed)\<rparr>"
  have core: "core_inv s" "\<not> lock s" using inv by (auto simp: dev_inv_def)
  have f: "a \<notin> owned s" by (rule core_inv_fresh(3) [OF core(1) a])
  have i2: "core_inv ?s2" "abs_dev ?s2 = abs_dev s" "leaked ?s2 = insert a (leaked s)" "a \<notin> owned ?s2"
    using core_inv_add_block [of "s\<lparr>lock := True\<rparr>" a landed] core(1) a f
    by (simp_all add: owned_def)
  have "\<exists>t junk2. bsize (buffer_entry s) \<noteq> 0 \<longrightarrow> alloc2 k = Some (t, junk2) \<and> t \<notin> dom (heap ?s2)"
  proof (cases "alloc2 k")
    case None
    then show ?thesis using alloc2 by blast
  next
    case (Some p)
    then obtain t junk2 where t: "alloc2 k = Some (t, junk2)" by (cases p) auto
    then have "t \<notin> dom (heap s)" "t \<noteq> a" using k(1,2) by (auto simp: alloc_ok_def)
    with t show ?thesis by (intro exI [of _ t] exI [of _ junk2]) simp
  qed
  then obtain t junk2 where t: "bsize (buffer_entry s) \<noteq> 0 \<Longrightarrow> alloc2 k = Some (t, junk2) \<and> t \<notin> dom (heap ?s2)"
    by blast
  have "\<exists>s'. write_tail k ?s2 (Some a) (last landed = newline) n pos = Returned (n, pos + n, s') \<and> dev_inv s' \<and>
    abs_dev s' = (if last landed = newline then spec_commit else id) (spec_append (abs_dev ?s2) (take (unat n) landed)) \<and>
    ((bsize (buffer_entry ?s2) = 0 \<longrightarrow> buffptr (buffer_entry ?s2) = NULL) \<longrightarrow> leaked s' = leaked ?s2 - {a})"
  proof (rule write_tail_ok [OF i2(1)])
    show "heap ?s2 a = Some landed" "a \<notin> owned ?s2" using i2 by simp_all
    show "unat n \<le> length landed" using n L by simp
    show "last landed = newline \<Longrightarrow> n \<noteq> 0" using nl n0 by blast
    show "bsize (buffer_entry ?s2) \<noteq> 0 \<Longrightarrow> alloc2 k = Some (t, junk2) \<and> t \<notin> dom (heap ?s2)"
      using t by simp
    show "unat (bsize (buffer_entry ?s2)) + unat n < 2 ^ 64" using no_wrap n by simp
  qed
  then obtain s' where s': "write_tail k ?s2 (Some a) (last landed = newline) n pos = Returned (n, pos + n, s')"
      "dev_inv s'"
      "abs_dev s' = (if last landed = newline then spec_commit else id) (spec_append (abs_dev s) (take (unat n) landed))"
      "(bsize (buffer_entry s) = 0 \<longrightarrow> buffptr (buffer_entry s) = NULL) \<longrightarrow> leaked s' = insert a (leaked s) - {a}"
    using i2 by auto
  have w: "aesd_write k s filp buf count pos = Returned (n, pos + n, s')"
    using aesd_write_tail [OF call(2) core(2) call(1) k(1) ci L buf(2)] s'(1) by (simp add: n_def)
  have "buf \<noteq> []" using buf by (metis list.size(3) unat_gt_0 less_irrefl)
  then have ab: "abs_dev s' = (if left = 0 then spec_write (abs_dev s) buf
                  else spec_append (abs_dev s) (take (unat count - left) buf))"
    using s'(3) nl tk buf(1) by (simp add: spec_write_def)
  have "a \<notin> leaked s" using a by (simp add: leaked_def)
  with w s'(2,4) ab show ?thesis by (auto simp: n_def)
qed

section \<open>Failures\<close>

lemma write_interrupted:
  "interrupted k \<Longrightarrow> aesd_write k s filp buf count pos = Returned (- EINTR, pos, s)"
  by (simp add: aesd_write_def mutex_lock_interruptible_def)

lemma write_no_memory:
  "\<not> interrupted k \<Longrightarrow> \<not> lock s \<Longrightarrow> alloc1 k = None \<Longrightarrow>
    aesd_write k s filp buf count pos = Returned (- ENOMEM, pos, s)"
  by (simp add: aesd_write_def mutex_lock_interruptible_def mutex_unlock_def)

text \<open>Without the second block the write fails and its first block is lost.\<close>

lemma write_no_second_block:
  assumes inv: "dev_inv s" and call: "private_data filp" "\<not> interrupted k"
    and k: "alloc1 k = Some (a, junk)" "alloc_ok k (heap s)" "copy_in_ok k" "alloc2 k = None"
    and buf: "length buf = unat count" "count \<noteq> 0"
    and pending: "bsize (buffer_entry s) \<noteq> 0"
  shows "\<exists>s'. aesd_write k s filp buf count pos = Returned (- ENOMEM, pos, s') \<and>
    dev_inv s' \<and> abs_dev s' = abs_dev s \<and> leaked s' = insert a (leaked s) \<and> a \<notin> leaked s"
proof -
  obtain landed left where ci: "copy_in k buf (map junk [0..<unat count]) = (landed, left)"
    by fastforce
  have len: "length landed = unat count"
    using copy_inD(3) [OF k(3) _ ci] buf(1) by simp
  have a: "a \<notin> dom (heap s)" using k(1,2) by (auto simp: alloc_ok_def)
  have core: "core_inv s" "\<not> lock s" using inv by (auto simp: dev_inv_def)
  let ?s1 = "s\<lparr>lock := True\<rparr>"
  let ?s2 = "?s1\<lparr>heap := (heap ?s1)(a \<mapsto> landed)\<rparr>"
  have "aesd_write k s filp buf count pos = Returned (- ENOMEM, pos, mutex_unlock ?s2)"
    using aesd_write_tail [OF call(2) core(2) call(1) k(1) ci len buf(2)] pending k(4)
    by (simp add: write_tail_def join_partial_def Let_def)
  moreover have "core_inv ?s2" "abs_dev ?s2 = abs_dev ?s1" "leaked ?s2 = insert a (leaked ?s1)"
    using core_inv_add_block [of ?s1 a landed] core(1) a by simp_all
  moreover note core_inv_add_block [OF core(1) a, of landed]
  moreover have "a \<notin> leaked s" using a by (simp add: leaked_def)
  ultimately show ?thesis by (simp add: dev_inv_def mutex_unlock_def)
qed

text \<open>Whatever the kernel answers, a write of at least one byte returns and keeps the invariant.\<close>

lemma write_safe:
  assumes inv: "dev_inv s" and call: "private_data filp"
    and k: "alloc_ok k (heap s)" "copy_in_ok k"
    and buf: "length buf = unat count" "count \<noteq> 0"
    and no_wrap: "unat (bsize (buffer_entry s)) + unat count < 2 ^ 64"
  shows "\<exists>r pos' s'. aesd_write k s filp buf count pos = Returned (r, pos', s') \<and> dev_inv s'"
proof (cases "interrupted k \<or> alloc1 k = None")
  case True
  then show ?thesis
    using inv write_interrupted write_no_memory by (metis dev_inv_def)
next
  case False
  then obtain a junk where a: "\<not> interrupted k" "alloc1 k = Some (a, junk)" by auto
  show ?thesis
  proof (cases "bsize (buffer_entry s) \<noteq> 0 \<and> alloc2 k = None")
    case True
    then show ?thesis
      using write_no_second_block [OF inv call a k, of buf count pos] buf by blast
  next
    case False
    then show ?thesis
      using write_ok [OF inv call a k buf _ no_wrap refl, of pos] by blast
  qed
qed

text \<open>A write of zero bytes reads the byte before its block.\<close>

lemma write_zero_faults:
  "\<not> interrupted k \<Longrightarrow> \<not> lock s \<Longrightarrow> alloc1 k = Some (a, junk) \<Longrightarrow>
    aesd_write k s filp buf 0 pos = Oops OutOfBounds"
  by (simp add: aesd_write_def mutex_lock_interruptible_def last_byte_def Let_def split: prod.split)

end
