(* ===== verification/Driver_Control.thy ===== *)
theory Driver_Control
  imports Driver_Read Driver_Write
begin

text \<open>
  The other entry points of the driver: seeking by \<^verbatim>\<open>llseek\<close> and by the ioctl, loading and
  unloading the module.
\<close>

unbundle bit_operations_syntax

section \<open>llseek\<close>

lemma unat_sum_list:
  fixes ws :: "size_t list"
  assumes "sum_list (map unat ws) < 2 ^ 64"
  shows "unat (sum_list ws) = sum_list (map unat ws)"
  using assms by (induction ws) (simp_all add: unat_add_size)

lemma circ_buff_size_log:
  assumes "core_inv s" "in_range s"
  shows "unat (circ_buff_size (circular_buffer s)) = length (log_bytes (abs_dev s))"
proof -
  let ?b = "circular_buffer s"
  have "map (\<lambda>e. if buffptr e \<noteq> NULL then bsize e else 0) (contents ?b) = map bsize (contents ?b)"
    using assms(1) entry_ok_not_NULL by (intro map_cong) (auto simp: core_inv_def)
  moreover have "circ_buff_size ?b = sum_list (map (\<lambda>e. if buffptr e \<noteq> NULL then bsize e else 0) (contents ?b))"
    unfolding circ_buff_size_def using assms(1) by (intro foreach_sum) (simp_all add: core_inv_def)
  ultimately have "circ_buff_size ?b = sum_list (map bsize (contents ?b))"
    by (simp only:)
  moreover have "map unat (map bsize (contents ?b)) = csizes ?b"
    by (simp add: csizes_def)
  moreover have "sum_list (csizes ?b) < 2 ^ 64"
    using assms(2) by (simp add: in_range_def)
  ultimately show ?thesis
    using unat_sum_list [of "map bsize (contents ?b)"] length_log_bytes [OF assms(1)] by simp
qed

text \<open>
  What \<^verbatim>\<open>fixed_size_llseek\<close> promises for \<^verbatim>\<open>SEEK_SET\<close>, \<^verbatim>\<open>SEEK_CUR\<close> and \<^verbatim>\<open>SEEK_END\<close>: a target
  inside the device becomes the position, any other is refused.
\<close>

definition seek_target :: "int \<Rightarrow> int \<Rightarrow> cint \<Rightarrow> int \<Rightarrow> int" where
  "seek_target pos off whence len =
     off + (if whence = 0 then 0 else if whence = 1 then pos else len)"

definition llseek_ok :: "kernel_call \<Rightarrow> bool" where
  "llseek_ok k \<longleftrightarrow> (\<forall>pos off whence sz. whence \<in> {0, 1, 2} \<longrightarrow>
     size_llseek k pos off whence sz =
       (let t = seek_target (sint pos) (sint off) whence (sint sz)
        in if 0 \<le> t \<and> t \<le> sint sz then (word_of_int t, word_of_int t) else (pos, - EINVAL)))"

lemma sint_small:
  fixes w :: "64 word"
  assumes "unat w < 2 ^ 63"
  shows "sint w = int (unat w)"
proof -
  have "uint w < 2 ^ 63"
    using assms by (metis of_nat_less_iff of_nat_numeral of_nat_power uint_nat)
  then have "signed_take_bit (LENGTH(64) - Suc 0) (uint w) = uint w"
    by (intro signed_take_bit_int_eq_self) (use order_trans [OF _ uint_ge_0 [of w]] in simp_all)
  then show ?thesis by (simp only: sint_uint uint_nat)
qed

lemma llseek_ok_result:
  assumes inv: "dev_inv s" "in_range s" and k: "\<not> interrupted k" "llseek_ok k" "whence \<in> {0, 1, 2}"
  shows "aesd_llseek k s filp off whence =
    (let len = length (log_bytes (abs_dev s));
         t = seek_target (sint (f_pos filp)) (sint off) whence (int len)
     in if 0 \<le> t \<and> t \<le> int len then Returned (word_of_int t, filp\<lparr>f_pos := word_of_int t\<rparr>, s)
        else Returned (- EINVAL, filp, s))"
proof -
  have core: "core_inv s" "\<not> lock s" using inv by (auto simp: dev_inv_def)
  let ?size = "circ_buff_size (circular_buffer s)"
  have len: "unat ?size = length (log_bytes (abs_dev s))"
    by (rule circ_buff_size_log [OF core(1) inv(2)])
  also have "\<dots> < 2 ^ 31" using length_log_bytes [OF core(1)] inv(2) by (simp add: in_range_def)
  finally have "sint ?size = int (length (log_bytes (abs_dev s)))"
    using len by (simp add: sint_small)
  moreover have "size_llseek k (f_pos filp) off whence ?size =
       (let t = seek_target (sint (f_pos filp)) (sint off) whence (sint ?size)
        in if 0 \<le> t \<and> t \<le> sint ?size then (word_of_int t, word_of_int t) else (f_pos filp, - EINVAL))"
    using k(2,3) unfolding llseek_ok_def by blast
  ultimately show ?thesis
    using core(2) k(1)
    by (simp add: aesd_llseek_def mutex_lock_interruptible_def mutex_unlock_def Let_def)
qed

section \<open>The seek ioctl\<close>

lemma and_0xF: "w AND 0xF = take_bit 4 w" for w :: "'a::len word"
  by (simp add: take_bit_eq_mask mask_eq_exp_minus_1)

text \<open>The two nibbles the driver decodes lie in the first byte, the only one that is copied.\<close>

lemma le32_nibbles:
  "le32 (b # bs) AND 0xF = ucast b AND 0xF"
  "drop_bit 4 (le32 (b # bs)) AND 0xF = drop_bit 4 (ucast b) AND 0xF"
  unfolding and_0xF le32_def
  by (rule bit_eqI, auto simp: bit_simps)+

definition ioctl_command :: "byte \<Rightarrow> nat" where
  "ioctl_command b = unat (drop_bit 4 (ucast b :: uint32_t) AND 0xF)"

definition ioctl_offset :: "byte \<Rightarrow> nat" where
  "ioctl_offset b = unat ((ucast b :: uint32_t) AND 0xF)"

lemma ioctl_offset_less: "ioctl_offset b < 16"
proof -
  have "unat (take_bit 4 (ucast b :: uint32_t)) = take_bit 4 (unat (ucast b :: uint32_t))"
    by (simp add: unsigned_take_bit_eq)
  then show ?thesis by (simp add: ioctl_offset_def and_0xF take_bit_eq_mod)
qed

lemma ioctl_result:
  assumes inv: "dev_inv s" "in_range s" and call: "private_data filp" "\<not> interrupted k"
    and copied: "copy_in k [b] [j] = ([b], 0)"
  shows "aesd_unlocked_ioctl iowr k (j # js) s filp (AESDCHAR_IOCSEEKTO iowr) (b # us) =
    (if ioctl_command b < 10 then
       Returned (0, filp\<lparr>f_pos := of_nat (length (concat (take (ioctl_command b) (commands (abs_dev s)))) +
         ioctl_offset b)\<rparr>, s)
     else Returned (- EINVAL, filp, s\<lparr>lock := True\<rparr>))"
proof -
  have core: "core_inv s" "\<not> lock s" using inv by (auto simp: dev_inv_def)
  let ?b = "circular_buffer s"
  let ?c = "drop_bit 4 (ucast b :: uint32_t) AND 0xF" and ?o = "(ucast b :: uint32_t) AND 0xF"
  have ge: "?c \<ge> of_nat AESDCHAR_MAX_WRITE_OPERATIONS_SUPPORTED \<longleftrightarrow> \<not> ioctl_command b < 10"
    by (simp add: ioctl_command_def AESDCHAR_MAX_WRITE_OPERATIONS_SUPPORTED_def word_le_nat_alt not_less)
  have "sum_list (csizes ?b) < 2 ^ 31" using inv(2) by (simp add: in_range_def)
  then have "unat (aesd_circular_buffer_get_fpos ?b ?c ?o) =
      sum_list (take (unat ?c) (csizes ?b)) + unat ?o"
    using core(1) ioctl_offset_less [of b]
    by (intro get_fpos_sum) (simp_all add: core_inv_def ioctl_offset_def)
  also have "\<dots> = length (concat (take (ioctl_command b) (commands (abs_dev s)))) + ioctl_offset b"
    by (simp add: csizes_commands [OF core(1)] ioctl_command_def ioctl_offset_def length_concat take_map)
  finally have g: "aesd_circular_buffer_get_fpos ?b ?c ?o =
      of_nat (length (concat (take (ioctl_command b) (commands (abs_dev s)))) + ioctl_offset b)"
    by (metis of_nat_unat ucast_id)
  have "mutex_unlock (s\<lparr>lock := True\<rparr>) = s" using core(2) by (simp add: mutex_unlock_def)
  then show ?thesis
    using copied ge g call core(2)
    by (simp add: aesd_unlocked_ioctl_def aesd_adjust_file_offset_def mutex_lock_interruptible_def
        seekto_of_bytes_def le32_nibbles Let_def)
qed

text \<open>Once the lock is lost, every entry point waits for it for ever.\<close>

lemma locked_blocks:
  assumes "lock s" "\<not> interrupted k"
  shows "aesd_read k s filp count pos = Blocked"
    and "aesd_write k s filp buf count pos = Blocked"
    and "aesd_llseek k s filp off whence = Blocked"
    and "aesd_adjust_file_offset k s filp c d = Blocked"
    and "aesd_cleanup_module k s = Blocked"
  using assms
  by (simp_all add: aesd_read_def aesd_write_def aesd_llseek_def aesd_adjust_file_offset_def
      aesd_cleanup_module_def mutex_lock_interruptible_def Let_def)

section \<open>Loading the module\<close>

definition empty_log :: cmd_log where
  "empty_log = \<lparr>commands = [], pending = []\<rparr>"

lemma init_ok:
  assumes "alloc_result r = 0" "cdev_add_result r = 0"
  shows "\<exists>s'. aesd_init_module r s = (0, s') \<and> dev_inv s' \<and> abs_dev s' = empty_log \<and>
    region s' \<and> cdev_live s' \<and> heap s' = heap s \<and> owned s' = {}"
proof -
  have "aesd_init_module r s = (0, snd (aesd_init_module r s))"
    using assms by (simp add: aesd_init_module_def aesd_setup_cdev_def Let_def)
  moreover have "dev_inv (snd (aesd_init_module r s)) \<and> abs_dev (snd (aesd_init_module r s)) = empty_log \<and>
    owned (snd (aesd_init_module r s)) = {}"
    using assms
    by (simp add: aesd_init_module_def aesd_setup_cdev_def Let_def dev_inv_def core_inv_def
        init_wf init_contents abs_dev_def empty_log_def owned_def)
  moreover have "region (snd (aesd_init_module r s)) \<and> cdev_live (snd (aesd_init_module r s)) \<and>
    heap (snd (aesd_init_module r s)) = heap s"
    using assms by (simp add: aesd_init_module_def aesd_setup_cdev_def Let_def)
  ultimately show ?thesis by blast
qed

lemma init_fails:
  assumes "alloc_result r <s 0 \<or> cdev_add_result r \<noteq> 0" "\<not> region s" "\<not> cdev_live s"
  shows "\<not> region (snd (aesd_init_module r s)) \<and> \<not> cdev_live (snd (aesd_init_module r s)) \<and>
    fst (aesd_init_module r s) \<noteq> 0"
  using assms by (auto simp: aesd_init_module_def aesd_setup_cdev_def Let_def)

section \<open>Unloading the module\<close>

lemma cleanup_loop_NULL: "cleanup_loop NULL es h = Inr h"
  by (induction es) simp_all

lemma cleanup_loop_unused: "\<forall>e \<in> set es. buffptr e = NULL \<Longrightarrow> cleanup_loop p es h = Inr h"
  by (induction es) simp_all

lemma cleanup_loop_freed:
  "a \<notin> dom h \<Longrightarrow> cleanup_loop (Some a) es h = (if \<forall>e \<in> set es. buffptr e = NULL then Inr h else Inl DoubleFree)"
  by (induction es) simp_all

lemma cleanup_loop_used:
  "a \<in> dom h \<Longrightarrow> \<exists>e \<in> set es. buffptr e \<noteq> NULL \<Longrightarrow>
    cleanup_loop (Some a) es h \<in> {Inr (h(a := None)), Inl DoubleFree}"
  by (induction es) (auto simp: cleanup_loop_freed)

lemma cleanup_result:
  assumes inv: "dev_inv s" and k: "\<not> interrupted k"
  shows "aesd_cleanup_module k s =
    (case buffptr (buffer_entry s) of
       None \<Rightarrow> Returned (s\<lparr>cdev_live := False, region := False\<rparr>)
     | Some a \<Rightarrow> if live_entries s = []
         then Returned (s\<lparr>cdev_live := False, region := False, heap := (heap s)(a := None)\<rparr>)
         else Oops DoubleFree)"
proof -
  have core: "core_inv s" "\<not> lock s" and wf: "ring_wf (circular_buffer s)"
    using inv by (auto simp: dev_inv_def core_inv_def)
  let ?es = "AESD_CIRCULAR_BUFFER_FOREACH (circular_buffer s)"
  have none: "\<forall>e \<in> set ?es. buffptr e = NULL" if "live_entries s = []"
    using foreach_set(1) [OF wf] that by auto
  have some: "\<exists>e \<in> set ?es. buffptr e \<noteq> NULL" if ne: "live_entries s \<noteq> []"
  proof -
    from ne obtain e where e: "e \<in> set (live_entries s)" by (cases "live_entries s") auto
    then have "entry_ok (heap s) e" using core(1) by (auto simp: core_inv_def)
    then have "buffptr e \<noteq> NULL" by (rule entry_ok_not_NULL)
    with e foreach_set(2) [OF wf] show ?thesis by blast
  qed
  show ?thesis
  proof (cases "buffptr (buffer_entry s)")
    case None
    then show ?thesis using core(2) k
      by (simp add: aesd_cleanup_module_def mutex_lock_interruptible_def mutex_unlock_def Let_def cleanup_loop_NULL)
  next
    case (Some a)
    then have a: "a \<in> dom (heap s)"
      using core(1) by (auto simp: core_inv_def entry_ok_def split: option.splits)
    show ?thesis
    proof (cases "live_entries s = []")
      case True
      then show ?thesis using core(2) k Some a cleanup_loop_unused [OF none]
        by (simp add: aesd_cleanup_module_def mutex_lock_interruptible_def mutex_unlock_def Let_def)
    next
      case False
      then show ?thesis using core(2) k Some cleanup_loop_used [OF a some]
        by (auto simp: aesd_cleanup_module_def mutex_lock_interruptible_def Let_def)
    qed
  qed
qed

end
