(* ===== verification/Driver_System.thy ===== *)
theory Driver_System
  imports Driver_Control
begin

text \<open>
  The driver as a system: the states any sequence of calls can reach from a freshly loaded
  module, whatever the kernel answers, and what a run of writes leaves to be read.
\<close>

section \<open>Steps and reachable states\<close>

text \<open>One rule for each entry point of \<open>aesd_fops\<close> that touches the device.\<close>

inductive dev_step :: "kstate \<Rightarrow> kstate \<Rightarrow> bool" where
  read_step: "private_data filp \<Longrightarrow>
    aesd_read k s filp count pos = Returned (r, pos', data, s') \<Longrightarrow> dev_step s s'"
| write_step: "private_data filp \<Longrightarrow> alloc_ok k (heap s) \<Longrightarrow> copy_in_ok k \<Longrightarrow> length buf = unat count \<Longrightarrow>
    unat (bsize (buffer_entry s)) + unat count < 2 ^ 64 \<Longrightarrow>
    aesd_write k s filp buf count pos = Returned (r, pos', s') \<Longrightarrow> dev_step s s'"
| llseek_step: "aesd_llseek k s filp off whence = Returned (r, filp', s') \<Longrightarrow> dev_step s s'"
| ioctl_step: "aesd_unlocked_ioctl iowr k stack s filp cmd user = Returned (r, filp', s') \<Longrightarrow> dev_step s s'"

inductive_cases dev_stepE: "dev_step s s'"

definition loaded :: "kstate \<Rightarrow> bool" where
  "loaded s \<longleftrightarrow> (\<exists>r s0. alloc_result r = 0 \<and> cdev_add_result r = 0 \<and> heap s0 = Map.empty \<and>
     s = snd (aesd_init_module r s0))"

text \<open>A call that returns changes nothing the invariant sees, but for a write.\<close>

lemma read_frame:
  "aesd_read k s filp count pos = Returned (r, pos', data, s') \<Longrightarrow> s' = s \<or> s' = s\<lparr>lock := False\<rparr>"
  by (auto simp: aesd_read_def mutex_lock_interruptible_def mutex_unlock_def obind_Returned_iff
      ebind_Returned_iff Let_def split: if_splits option.splits prod.splits)

lemma llseek_frame:
  "aesd_llseek k s filp off whence = Returned (r, filp', s') \<Longrightarrow> s' = s \<or> s' = s\<lparr>lock := False\<rparr>"
  by (auto simp: aesd_llseek_def mutex_lock_interruptible_def mutex_unlock_def Let_def
      split: if_splits prod.splits)

lemma ioctl_frame:
  "aesd_unlocked_ioctl iowr k stack s filp cmd user = Returned (r, filp', s') \<Longrightarrow>
    s' = s \<or> (\<exists>b. s' = s\<lparr>lock := b\<rparr>)"
  by (auto simp: aesd_unlocked_ioctl_def aesd_adjust_file_offset_def mutex_lock_interruptible_def
      mutex_unlock_def Let_def split: if_splits prod.splits)

lemma write_core_inv:
  assumes inv: "core_inv s" and call: "private_data filp" "alloc_ok k (heap s)" "copy_in_ok k"
      "length buf = unat count" "unat (bsize (buffer_entry s)) + unat count < 2 ^ 64"
    and ret: "aesd_write k s filp buf count pos = Returned (r, pos', s')"
  shows "core_inv s'"
proof (cases "interrupted k")
  case True
  then show ?thesis using ret inv by (simp add: write_interrupted)
next
  case False
  then have l: "\<not> lock s" using ret locked_blocks(2) by fastforce
  show ?thesis
  proof (cases "count = 0")
    case True
    with False l ret have "alloc1 k = None"
      using write_zero_faults [of k s _ _ filp buf pos] by (cases "alloc1 k") auto
    with False l ret inv show ?thesis by (simp add: write_no_memory)
  next
    case False
    then show ?thesis
      using write_safe [OF _ call(1-4) _ call(5), of pos] inv l ret by (auto simp: dev_inv_def)
  qed
qed

interpretation driver: invariant_system loaded dev_step core_inv
proof (unfold_locales, goal_cases)
  case (1 s)
  then obtain r s0 where "alloc_result r = 0" "cdev_add_result r = 0" "s = snd (aesd_init_module r s0)"
    by (auto simp: loaded_def)
  then show ?case using init_ok [of r s0] by (auto simp: dev_inv_def)
next
  case (2 s t)
  from 2(2) show ?case
  proof (cases rule: dev_step.cases)
    case read_step
    then show ?thesis using 2(1) read_frame by fastforce
  next
    case write_step
    then show ?thesis using 2(1) write_core_inv by blast
  next
    case llseek_step
    then show ?thesis using 2(1) llseek_frame by fastforce
  next
    case ioctl_step
    then show ?thesis using 2(1) ioctl_frame by fastforce
  qed
qed

section \<open>Runs of writes\<close>

text \<open>A call that gets everything it asks the kernel for.\<close>

definition good_call :: "kernel_call \<Rightarrow> kstate \<Rightarrow> bool" where
  "good_call k s \<longleftrightarrow> \<not> interrupted k \<and> alloc1 k \<noteq> None \<and> alloc2 k \<noteq> None \<and> alloc_ok k (heap s) \<and>
     copy_in_ok k \<and> (\<forall>u d. snd (copy_in k u d) = 0)"

fun write_seq :: "kstate \<Rightarrow> (kernel_call \<times> byte list) list \<Rightarrow> kstate outcome" where
  "write_seq s [] = Returned s"
| "write_seq s ((k, bs) # rest) =
     obind (aesd_write k s opened bs (of_nat (length bs)) 0) (\<lambda>(r, pos, s'). write_seq s' rest)"

fun good_calls :: "kstate \<Rightarrow> (kernel_call \<times> byte list) list \<Rightarrow> bool" where
  "good_calls s [] = True"
| "good_calls s ((k, bs) # rest) = (good_call k s \<and> bs \<noteq> [] \<and>
     (case aesd_write k s opened bs (of_nat (length bs)) 0 of
        Returned (r, pos, s') \<Rightarrow> good_calls s' rest
      | _ \<Rightarrow> True))"

lemma write_good:
  assumes inv: "dev_inv s" and k: "good_call k s" and f: "private_data f" and bs: "bs \<noteq> []"
    and len: "length (pending (abs_dev s)) + length bs < 2 ^ 64"
  shows "\<exists>s'. aesd_write k s f bs (of_nat (length bs)) pos =
      Returned (of_nat (length bs), pos + of_nat (length bs), s') \<and>
    dev_inv s' \<and> abs_dev s' = spec_write (abs_dev s) bs"
proof -
  have n: "unat (of_nat (length bs) :: size_t) = length bs" using len by (simp add: unat_of_nat_size)
  obtain a junk where a: "alloc1 k = Some (a, junk)" using k by (auto simp: good_call_def)
  have p: "length (pending (abs_dev s)) = unat (bsize (buffer_entry s))"
    using inv by (simp add: dev_inv_def length_pending)
  have nz: "(of_nat (length bs) :: size_t) \<noteq> 0"
    using n bs by (metis length_0_conv unsigned_0)
  show ?thesis
    using write_ok [OF inv f _ a _ _ n [symmetric] nz _ _ refl, of pos] k p len n
    by (auto simp: good_call_def)
qed

lemma length_pending_write: "length (pending (spec_write l bs)) \<le> length (pending l) + length bs"
  by (simp add: spec_write_def spec_append_def spec_commit_def)

lemma write_seq_ok:
  assumes "dev_inv s" "good_calls s kbs"
    and "length (pending (abs_dev s)) + sum_list (map (\<lambda>kb. length (snd kb)) kbs) < 2 ^ 64"
  shows "\<exists>s'. write_seq s kbs = Returned s' \<and> dev_inv s' \<and>
    abs_dev s' = foldl spec_write (abs_dev s) (map snd kbs)"
  using assms
proof (induction s kbs rule: write_seq.induct)
  case (1 s)
  then show ?case by simp
next
  case (2 s k bs rest)
  obtain s1 where s1: "aesd_write k s opened bs (of_nat (length bs)) 0 =
      Returned (of_nat (length bs), 0 + of_nat (length bs), s1)"
    "dev_inv s1" "abs_dev s1 = spec_write (abs_dev s) bs"
    using write_good [of s k opened bs 0] "2.prems" by auto
  have "length (pending (abs_dev s1)) + sum_list (map (\<lambda>kb. length (snd kb)) rest) < 2 ^ 64"
    using length_pending_write [of "abs_dev s" bs] "2.prems"(3) s1(3) by simp
  moreover have "good_calls s1 rest" using "2.prems"(2) s1(1) by simp
  ultimately show ?case using "2.IH" [OF s1(2)] s1 by simp
qed

section \<open>The log of a run\<close>

text \<open>Cutting a write into pieces does not matter as long as a newline only ends the last one.\<close>

lemma spec_write_no_newline: "newline \<notin> set bs \<Longrightarrow> spec_write l bs = spec_append l bs"
  by (metis last_in_set spec_write_def)

lemma spec_write_pieces:
  "\<forall>c \<in> set cs. c \<noteq> [] \<Longrightarrow> cs \<noteq> [] \<Longrightarrow> newline \<notin> set (butlast (concat cs)) \<Longrightarrow>
    foldl spec_write l cs = spec_write l (concat cs)"
proof (induction cs arbitrary: l)
  case Nil
  then show ?case by simp
next
  case (Cons c cs)
  show ?case
  proof (cases "cs = []")
    case True
    then show ?thesis by simp
  next
    case False
    with Cons.prems have ne: "concat cs \<noteq> []" by (cases cs) auto
    then have b: "butlast (concat (c # cs)) = c @ butlast (concat cs)"
      by (simp only: concat.simps butlast_append if_False)
    with Cons.prems have "spec_write l c = spec_append l c" "newline \<notin> set (butlast (concat cs))"
      by (auto intro: spec_write_no_newline)
    with Cons.IH [of "spec_append l c"] Cons.prems False ne show ?thesis
      by (simp add: spec_write_def spec_append_def)
  qed
qed

text \<open>Whole lines replace the oldest ones.\<close>

lemma spec_write_lines:
  assumes "\<forall>w \<in> set ws. w \<noteq> [] \<and> last w = newline" "length (commands l) \<le> 10" "pending l = []"
  shows "foldl spec_write l ws =
    \<lparr>commands = drop (length (commands l) + length ws - 10) (commands l @ ws), pending = []\<rparr>"
  using assms
proof (induction ws rule: rev_induct)
  case Nil
  then show ?case by (cases l) simp
next
  case (snoc w ws)
  let ?l = "foldl spec_write l ws" and ?d = "length (commands l) + length ws - 10"
  have l: "?l = \<lparr>commands = drop ?d (commands l @ ws), pending = []\<rparr>"
    using snoc by simp
  define xs where "xs = commands l @ ws"
  have d: "?d = length xs - 10" by (simp add: xs_def)
  have "w \<noteq> []" "last w = newline" using snoc.prems by auto
  then have step: "foldl spec_write l (ws @ [w]) =
      spec_commit (spec_append \<lparr>commands = drop (length xs - 10) xs, pending = []\<rparr> w)"
    by (simp only: foldl_append foldl.simps l d flip: xs_def) (simp add: spec_write_def)
  have goal: "commands l @ ws @ [w] = xs @ [w]" "length (commands l) + length (ws @ [w]) = Suc (length xs)"
    by (simp_all add: xs_def)
  show ?case
  proof (cases "length xs < 10")
    case True
    then show ?thesis by (simp only: step goal) (simp add: spec_append_def spec_commit_def)
  next
    case False
    then have "length (drop (length xs - 10) xs) = 10" by simp
    moreover have "tl (drop (length xs - 10) xs) = drop (Suc (length xs - 10)) xs"
      by (simp only: tl_drop drop_Suc)
    moreover have "Suc (length xs - 10) = length xs - 9" using False by simp
    ultimately show ?thesis using False
      by (simp only: step goal) (simp add: spec_append_def spec_commit_def)
  qed
qed

lemma spec_write_line_pieces:
  assumes "\<forall>cs \<in> set pieces. cs \<noteq> [] \<and> (\<forall>c \<in> set cs. c \<noteq> [])"
    and "\<forall>cs \<in> set pieces. last (concat cs) = newline \<and> newline \<notin> set (butlast (concat cs))"
    and "length (commands l) \<le> 10" "pending l = []"
  shows "foldl spec_write l (concat pieces) =
    \<lparr>commands = drop (length (commands l) + length pieces - 10) (commands l @ map concat pieces), pending = []\<rparr>"
proof -
  have "foldl spec_write l' (concat pieces) = foldl spec_write l' (map concat pieces)" for l'
    using assms(1,2)
  proof (induction pieces arbitrary: l')
    case (Cons cs pieces)
    then have "foldl spec_write l' cs = spec_write l' (concat cs)"
      by (intro spec_write_pieces) auto
    with Cons show ?case by simp
  qed simp
  moreover have "concat cs \<noteq> []" if "cs \<in> set pieces" for cs
    using assms(1) that by (cases cs) auto
  ultimately show ?thesis
    using spec_write_lines [of "map concat pieces" l] assms by auto
qed

lemma length_concat_drop_pieces:
  "length (concat (drop n (map concat pieces))) \<le> length (concat (concat pieces))"
proof -
  have "concat (concat pieces) = concat (map concat pieces)" by (induction pieces) simp_all
  then have "concat (concat pieces) = concat (take n (map concat pieces)) @ concat (drop n (map concat pieces))"
    by (metis append_take_drop_id concat_append)
  then show ?thesis by simp
qed

end
