(* ===== verification/Ring_Properties.thy ===== *)
theory Ring_Properties
  imports Circular_Buffer
begin

text \<open>
  The properties of \<^verbatim>\<open>aesd-circular-buffer.c\<close>, each a statement about the modelled functions
  that rests on the lemmas of \<^theory_text>\<open>Circular_Buffer\<close>, and a ring to instantiate them at.
\<close>

section \<open>A ring with two entries\<close>

definition two_ring :: "size_t \<Rightarrow> aesd_circular_buffer" where
  "two_ring n = \<lparr>entry = \<lparr>buffptr = Some 1, bsize = n\<rparr> # \<lparr>buffptr = Some 2, bsize = 2\<rparr> # replicate 8 zero_entry,
     in_offs = 2, out_offs = 0, full = False\<rparr>"

abbreviation ex_ring :: aesd_circular_buffer where
  "ex_ring \<equiv> two_ring 3"

lemma two_ring_facts [simp]:
  "live_count (two_ring n) = 2" "out_offs (two_ring n) = 0" "full (two_ring n) = False"
  "contents (two_ring n) = [\<lparr>buffptr = Some 1, bsize = n\<rparr>, \<lparr>buffptr = Some 2, bsize = 2\<rparr>]"
  "csizes (two_ring n) = [unat n, 2]"
  by (simp_all add: live_count_def two_ring_def contents_def slot_def csizes_def upt_rec)

lemma two_ring_wf [simp]: "ring_wf (two_ring n)"
proof -
  have "entry (two_ring n) ! slot (two_ring n) k = zero_entry" if "k < 10" "2 \<le> k" for k
  proof -
    obtain j where "k = Suc (Suc j)" using \<open>2 \<le> k\<close> by (metis add_2_eq_Suc le_Suc_ex)
    with that show ?thesis by (simp add: slot_def two_ring_def)
  qed
  then show ?thesis by (simp add: ring_wf_def) (simp add: two_ring_def)
qed

section \<open>Properties\<close>

text \<open>C9. Starting from any initialised ring, any sequence of \<^verbatim>\<open>aesd_circular_buffer_add_entry\<close>
  calls succeeds and leaves exactly the last ten entries, oldest first; the pointers it hands
  back to be freed are those of the entries that were pushed out, in order, and \<^verbatim>\<open>NULL\<close> while
  the ring still had room.\<close>

theorem ring_keeps_last_ten:
  "\<exists>ptrs b'. push_all aesd_circular_buffer_add_entry (aesd_circular_buffer_init b) es = Inr (ptrs, b') \<and>
    ring_wf b' \<and> contents b' = drop (length es - 10) es \<and>
    ptrs = map (\<lambda>k. if k < 10 then NULL else buffptr (es ! (k - 10))) [0..<length es]"
proof -
  obtain ptrs b' where run: "push_all aesd_circular_buffer_add_entry (aesd_circular_buffer_init b) es = Inr (ptrs, b')"
      "ring_wf b'" "length ptrs = length es"
    using ring.push_all_good [OF init_wf] by blast
  have "ptrs ! k = (if k < 10 then NULL else buffptr (es ! (k - 10)))" if "k < length es" for k
    using ring.push_all_tags [OF init_wf run(1) that] by (simp add: init_contents)
  then have "ptrs = map (\<lambda>k. if k < 10 then NULL else buffptr (es ! (k - 10))) [0..<length es]"
    using run(3) by (intro nth_equalityI) simp_all
  with run ring.push_all_items [OF init_wf run(1)] show ?thesis
    by (simp add: init_contents)
qed

text \<open>C14. \<^verbatim>\<open>aesd_circular_buffer_find_entry_offset_for_fpos\<close> is right on a well-formed ring whose
  commands are not empty and total less than \<open>2^31\<close> bytes (it sums them in an \<^verbatim>\<open>int\<close>): it
  answers \<^verbatim>\<open>NULL\<close> exactly for positions past the last byte, and slot \<open>i\<close> with offset \<open>d\<close> exactly
  when byte \<open>d\<close> of the command in that slot is the byte at this position of the commands laid
  end to end.\<close>

theorem find_entry_correct:
  assumes "ring_wf b" "sum_list (csizes b) < 2 ^ 31" "0 \<notin> set (csizes b)"
  shows "(aesd_circular_buffer_find_entry_offset_for_fpos b c = None \<longleftrightarrow> sum_list (csizes b) \<le> unat c) \<and>
    (aesd_circular_buffer_find_entry_offset_for_fpos b c = Some (i, d) \<longleftrightarrow>
      (\<exists>k < live_count b. i = slot b k \<and> unat d < csizes b ! k \<and>
        unat c = sum_list (take k (csizes b)) + unat d))"
proof -
  have "csizes b = [] \<or> hd (csizes b) > 0" using assms(3) by (cases "csizes b") auto
  then have f: "aesd_circular_buffer_find_entry_offset_for_fpos b c =
      map_option (\<lambda>(j, d). (slot b j, of_nat d)) (locate (csizes b) (unat c))"
    using assms by (intro find_entry_locate)
  have u: "unat (of_nat e :: size_t) = e" if "k < live_count b" "e < csizes b ! k" for k e
  proof -
    have "csizes b ! k \<le> sum_list (csizes b)" using that by (intro elem_le_sum_list) simp
    then show ?thesis using that assms(2) by (intro unat_of_nat_size) simp
  qed
  show ?thesis
    by (auto simp: f locate_None_iff locate_Some u)
qed

theorem find_entry_correct_witness:
  "ring_wf ex_ring \<and> aesd_circular_buffer_find_entry_offset_for_fpos ex_ring 4 = Some (1, 1) \<and>
    aesd_circular_buffer_find_entry_offset_for_fpos ex_ring 5 = None"
proof -
  have "\<exists>k < live_count ex_ring. (1 :: nat) = slot ex_ring k \<and> unat (1 :: size_t) < csizes ex_ring ! k \<and>
      unat (4 :: size_t) = sum_list (take k (csizes ex_ring)) + unat (1 :: size_t)"
    by (intro exI [of _ 1]) (simp add: slot_def)
  then have "aesd_circular_buffer_find_entry_offset_for_fpos ex_ring 4 = Some (1, 1)"
    using find_entry_correct [of ex_ring 4 1 1] by simp
  moreover have "aesd_circular_buffer_find_entry_offset_for_fpos ex_ring 5 = None"
    using find_entry_correct [of ex_ring 5] by simp
  ultimately show ?thesis by simp
qed

text \<open>C27. The two searches undo each other: the file position \<^verbatim>\<open>aesd_circular_buffer_get_fpos\<close>
  computes for a byte of a stored command is found again by
  \<^verbatim>\<open>aesd_circular_buffer_find_entry_offset_for_fpos\<close> in the slot of that command at that offset.\<close>

theorem get_fpos_find_roundtrip:
  assumes "ring_wf b" "sum_list (csizes b) < 2 ^ 31" "0 \<notin> set (csizes b)"
    and "unat cmd < live_count b" "unat offset < csizes b ! unat cmd"
  shows "aesd_circular_buffer_find_entry_offset_for_fpos b (aesd_circular_buffer_get_fpos b cmd offset) =
    Some (slot b (unat cmd), ucast offset)"
  using assms by (rule find_get_fpos)

theorem get_fpos_find_roundtrip_witness:
  "aesd_circular_buffer_find_entry_offset_for_fpos ex_ring (aesd_circular_buffer_get_fpos ex_ring 1 1) = Some (1, 1)"
  using get_fpos_find_roundtrip [of ex_ring 1 1] by (simp add: slot_def)

text \<open>A command of size zero at the front hides the whole ring: the search takes a sum of zero
  for an empty ring and answers \<^verbatim>\<open>NULL\<close> at every position, whatever the later slots hold.\<close>

lemma find_entry_zero_front:
  assumes "ring_wf b" "csizes b \<noteq> []" "hd (csizes b) = 0"
  shows "aesd_circular_buffer_find_entry_offset_for_fpos b c = None"
proof -
  have "live_count b \<noteq> 0" using assms(2) by (metis length_0_conv length_csizes)
  then have "bsize (entry b ! slot b 0) = 0"
    using assms(2,3) by (simp add: csizes_def contents_def hd_map hd_conv_nth unsigned_eq_0_iff)
  then have "add_size 0 (bsize (entry b ! (unat (out_offs b) mod 10))) = 0"
    by (simp add: slot_def add_size_def int_to_size_def size_to_int_def)
  then show ?thesis
    by (simp add: aesd_circular_buffer_find_entry_offset_for_fpos_def
        find_loop.simps [of _ _ _ "unat (out_offs b)"] AESDCHAR_MAX_WRITE_OPERATIONS_SUPPORTED_def)
qed

lemma find_entry_zero_front_example:
  "sum_list (csizes (two_ring 0)) = 2 \<and>
    aesd_circular_buffer_find_entry_offset_for_fpos (two_ring 0) 0 = None"
  using find_entry_zero_front [of "two_ring 0" 0] by simp

end
