(* ===== verification/Driver_Example.thy ===== *)
theory Driver_Example
  imports Driver_System Ring_Properties
begin

text \<open>
  A concrete device and three kernels, at which the properties are instantiated: two
  commands \<^verbatim>\<open>ab\<close> and \<^verbatim>\<open>c\<close> are stored, the letter \<^verbatim>\<open>d\<close> waits for its newline.
\<close>

definition ex_dev :: kstate where
  "ex_dev = \<lparr>circular_buffer = ex_ring, buffer_entry = \<lparr>buffptr = Some 3, bsize = 1\<rparr>, lock = False,
     heap = [1 \<mapsto> [97, 98, 10], 2 \<mapsto> [99, 10], 3 \<mapsto> [100]],
     aesd_major = 0, region = True, cdev_live = True\<rparr>"

definition ex_call :: kernel_call where
  "ex_call = \<lparr>interrupted = False, alloc1 = Some (7, \<lambda>_. 0), alloc2 = Some (8, \<lambda>_. 0),
     copy_in = (\<lambda>user dst. (user, 0)), copy_out = (\<lambda>src. 0),
     size_llseek = (\<lambda>pos off whence sz.
       let t = seek_target (sint pos) (sint off) whence (sint sz)
       in if 0 \<le> t \<and> t \<le> sint sz then (word_of_int t, word_of_int t) else (pos, - EINVAL))\<rparr>"

text \<open>The same without memory for a second block, and one whose copies to the user fail.\<close>

definition ex_no_memory :: kernel_call where
  "ex_no_memory = ex_call\<lparr>alloc2 := None\<rparr>"

definition ex_bad_user :: kernel_call where
  "ex_bad_user = ex_call\<lparr>copy_out := \<lambda>src. 1\<rparr>"

lemma ex_dev_facts [simp]:
  "circular_buffer ex_dev = ex_ring" "buffer_entry ex_dev = \<lparr>buffptr = Some 3, bsize = 1\<rparr>"
  "lock ex_dev = False" "heap ex_dev = [1 \<mapsto> [97, 98, 10], 2 \<mapsto> [99, 10], 3 \<mapsto> [100]]"
  by (simp_all add: ex_dev_def)

lemma ex_dev_inv [simp]: "dev_inv ex_dev" "in_range ex_dev"
  by (simp_all add: dev_inv_def core_inv_def in_range_def)

lemma ex_dev_abs [simp]:
  "abs_dev ex_dev = \<lparr>commands = [[97, 98, 10], [99, 10]], pending = [100]\<rparr>"
  by (simp add: abs_dev_def)

lemma ex_call_facts [simp]:
  "interrupted ex_call = False" "alloc1 ex_call = Some (7, \<lambda>_. 0)" "alloc2 ex_call = Some (8, \<lambda>_. 0)"
  "copy_in ex_call u d = (u, 0)" "copy_out ex_call src = 0"
  "copy_in_ok ex_call" "llseek_ok ex_call"
  by (simp_all add: ex_call_def copy_in_ok_def llseek_ok_def)

lemma ex_call_alloc [simp]:
  "alloc_ok ex_call h \<longleftrightarrow> 7 \<notin> dom h \<and> 8 \<notin> dom h"
  by (simp add: alloc_ok_def)

lemma ex_no_memory_facts [simp]:
  "interrupted ex_no_memory = False" "alloc1 ex_no_memory = Some (7, \<lambda>_. 0)" "alloc2 ex_no_memory = None"
  "copy_in_ok ex_no_memory" "alloc_ok ex_no_memory h \<longleftrightarrow> 7 \<notin> dom h"
  by (simp_all add: ex_no_memory_def copy_in_ok_def alloc_ok_def)

lemma ex_bad_user_facts [simp]:
  "interrupted ex_bad_user = False" "copy_out ex_bad_user src = 1"
  by (simp_all add: ex_bad_user_def)

text \<open>The same device with nothing in it.\<close>

definition ex_empty_dev :: kstate where
  "ex_empty_dev = ex_dev\<lparr>circular_buffer := aesd_circular_buffer_init ex_ring,
     buffer_entry := zero_entry, heap := Map.empty\<rparr>"

lemma ex_empty_dev_facts [simp]:
  "dev_inv ex_empty_dev" "abs_dev ex_empty_dev = empty_log" "heap ex_empty_dev = Map.empty"
  by (simp_all add: ex_empty_dev_def dev_inv_def core_inv_def init_wf init_contents abs_dev_def empty_log_def)

end
