(* ===== verification/Driver_Properties.thy ===== *)
theory Driver_Properties
  imports Driver_Example
begin

text \<open>
  The properties of the character device, each with an instance at the device of
  \<^theory_text>\<open>Driver_Example\<close>. A device \<open>s\<close> is good when \<open>dev_inv s\<close> holds, which
  \<open>driver_reachable\<close> shows of every state a loaded module can get into but for the lock.
\<close>

unbundle bit_operations_syntax

section \<open>Writing\<close>

text \<open>C1. A write that obtains its memory implements the abstract device: it reports the number
  of bytes that were copied and moves the position by it, keeps the representation invariant,
  and the new log is the old one with the bytes appended, the command being committed when the
  copy was complete and ended in a newline.\<close>

theorem aesd_write_refines:
  assumes "dev_inv s" "private_data filp" "\<not> interrupted k"
    and "alloc1 k = Some (a, junk)" "alloc_ok k (heap s)" "copy_in_ok k"
    and "length buf = unat count" "count \<noteq> 0"
    and "bsize (buffer_entry s) \<noteq> 0 \<Longrightarrow> alloc2 k \<noteq> None"
    and "unat (bsize (buffer_entry s)) + unat count < 2 ^ 64"
    and "left = snd (copy_in k buf (map junk [0..<unat count]))"
  shows "\<exists>s'. aesd_write k s filp buf count pos = Returned (count - of_nat left, pos + (count - of_nat left), s') \<and>
    dev_inv s' \<and>
    abs_dev s' = (if left = 0 then spec_write (abs_dev s) buf
                  else spec_append (abs_dev s) (take (unat count - left) buf))"
  using write_ok [OF assms, of pos] by blast

theorem aesd_write_refines_witness:
  "\<exists>s'. aesd_write ex_call ex_dev opened [101, 10] 2 5 = Returned (2, 7, s') \<and> dev_inv s' \<and>
    commands (abs_dev s') = [[97, 98, 10], [99, 10], [100, 101, 10]] \<and> pending (abs_dev s') = []"
  using aesd_write_refines [of ex_dev opened ex_call 7 "\<lambda>_. 0" "[101, 10]" 2 0 5]
  by (simp add: spec_write_def spec_append_def spec_commit_def) auto



text \<open>C29. When the second allocation fails the write answers \<^verbatim>\<open>-ENOMEM\<close> and the log is
  unchanged, but the block it had already allocated and filled is lost: it is neither freed nor
  reachable afterwards.\<close>

theorem aesd_write_enomem_leaks:
  assumes "dev_inv s" "private_data filp" "\<not> interrupted k"
    and "alloc1 k = Some (a, junk)" "alloc_ok k (heap s)" "copy_in_ok k" "alloc2 k = None"
    and "length buf = unat count" "count \<noteq> 0" "bsize (buffer_entry s) \<noteq> 0"
  shows "\<exists>s'. aesd_write k s filp buf count pos = Returned (- ENOMEM, pos, s') \<and>
    dev_inv s' \<and> abs_dev s' = abs_dev s \<and> leaked s' = insert a (leaked s) \<and> a \<notin> leaked s"
  using assms by (rule write_no_second_block)

theorem aesd_write_enomem_leaks_witness:
  "\<exists>s'. aesd_write ex_no_memory ex_dev opened [101] 1 5 = Returned (- ENOMEM, 5, s') \<and>
    dev_inv s' \<and> abs_dev s' = abs_dev ex_dev \<and> leaked s' = insert 7 (leaked ex_dev) \<and> 7 \<notin> leaked ex_dev"
  by (rule aesd_write_enomem_leaks [of ex_dev opened ex_no_memory 7 "\<lambda>_. 0" "[101]" 1 5]) simp_all



text \<open>A write of zero bytes is a fault: the test for the newline reads the byte before the new
  block.\<close>

lemma aesd_write_zero_faults:
  assumes "\<not> interrupted k" "\<not> lock s" "alloc1 k = Some (a, junk)"
  shows "aesd_write k s filp buf 0 pos = Oops OutOfBounds"
  using assms by (rule write_zero_faults)

lemma aesd_write_zero_faults_example:
  "aesd_write ex_call ex_dev opened [] 0 5 = Oops OutOfBounds"
  by (rule aesd_write_zero_faults) simp_all

text \<open>The debug trace that follows the copy stays inside the kernel buffer exactly when the
  copied bytes hold a zero byte: for a complete copy of text it reads past the end, the byte for
  the terminator that the comment at the allocation speaks of not being allocated.\<close>

lemma aesd_write_trace_overreads:
  assumes "alloc1 k = Some (a, junk)" "copy_in_ok k" "length buf = unat count"
    and "snd (copy_in k buf (map junk [0..<unat count])) = 0"
  shows "write_trace k h buf count = Inl OutOfBounds \<longleftrightarrow> 0 \<notin> set buf"
proof -
  obtain landed where ci: "copy_in k buf (map junk [0..<unat count]) = (landed, 0)"
    using assms(4) by (metis prod.collapse)
  have "landed = buf" using copy_inD(2) [OF assms(2) _ ci] assms(3) by simp
  with ci assms(1) show ?thesis by (simp add: write_trace_def pdebug_string_def)
qed

lemma aesd_write_trace_overreads_example:
  "write_trace ex_call Map.empty [104, 105, 10] 3 = Inl OutOfBounds"
  using aesd_write_trace_overreads [of ex_call 7 "\<lambda>_. 0" "[104, 105, 10]" 3 Map.empty] by simp

section \<open>Reading\<close>

text \<open>C8. A read implements the abstract device and changes nothing: it returns a prefix of what
  follows the position in the log, never more than asked for, moves the position by its length,
  and returns nothing only when nothing was asked for or the position is at the end.\<close>

theorem aesd_read_refines:
  assumes "dev_inv s" "in_range s" "private_data filp" "\<not> interrupted k" "\<And>src. copy_out k src = 0"
  shows "\<exists>n data. aesd_read k s filp count pos = Returned (n, pos + n, data, s) \<and>
    data = take (unat n) (drop (unat pos) (log_bytes (abs_dev s))) \<and>
    length data = unat n \<and> unat n \<le> unat count \<and>
    (data = [] \<longleftrightarrow> count = 0 \<or> length (log_bytes (abs_dev s)) \<le> unat pos)"
  using assms by (rule read_ok)

theorem aesd_read_refines_witness:
  "\<exists>n data. aesd_read ex_call ex_dev opened 10 1 = Returned (n, 1 + n, data, ex_dev) \<and>
    data = take (unat n) (drop (unat (1 :: loff_t)) (log_bytes (abs_dev ex_dev))) \<and>
    length data = unat n \<and> unat n \<le> unat (10 :: size_t) \<and>
    (data = [] \<longleftrightarrow> (10 :: size_t) = 0 \<or> length (log_bytes (abs_dev ex_dev)) \<le> unat (1 :: loff_t))"
  by (rule aesd_read_refines) simp_all

text \<open>C24. Reading on until the buffer is full or a read returns nothing, as \<^verbatim>\<open>fread\<close> does, yields
  exactly the bytes of the log from the position on, up to the size of the buffer, although no
  single read crosses the end of a command.\<close>

theorem read_all_of_log:
  assumes "dev_inv s" "in_range s" "pos < 2 ^ 63" "n < 2 ^ 63"
  shows "fread_loop (dev_read s) pos n = take n (drop pos (log_bytes (abs_dev s)))"
  by (rule dev.fread_loop_take) (use assms in simp_all)

theorem read_all_of_log_witness:
  "fread_loop (dev_read ex_dev) 1 100 = [98, 10, 99, 10]"
  using read_all_of_log [of ex_dev 1 100] by (simp add: log_bytes_def)

text \<open>When the copy to the user fails, a read of a byte inside the log answers \<^verbatim>\<open>-EFAULT\<close>,
  releases the lock and leaves device and position as they were.\<close>

lemma aesd_read_efault:
  assumes "dev_inv s" "in_range s" "private_data filp" "\<not> interrupted k" "\<And>src. copy_out k src > 0"
    and "unat pos < length (log_bytes (abs_dev s))"
  shows "\<exists>data. aesd_read k s filp count pos = Returned (- EFAULT, pos, data, s)"
  using assms by (rule read_fault)

lemma aesd_read_efault_example:
  "\<exists>data. aesd_read ex_bad_user ex_dev opened 10 1 = Returned (- EFAULT, 1, data, ex_dev)"
  by (rule aesd_read_efault) (simp_all add: log_bytes_def)

section \<open>Seeking\<close>



text \<open>C20. The seek ioctl depends on nothing but the first byte of its argument: the high nibble is
  the command, the low nibble the offset. For a command below ten the file position becomes the
  length of the commands before it plus the offset (of the whole log, when there are fewer
  commands: neither the command nor the offset is checked against what is stored); the bytes of
  the stack that were never written do not matter.\<close>

theorem aesd_ioctl_seek:
  assumes "dev_inv s" "in_range s" "private_data filp" "\<not> interrupted k" "copy_in k [b] [j] = ([b], 0)"
    and "ioctl_command b < 10"
  shows "aesd_unlocked_ioctl iowr k (j # js) s filp (AESDCHAR_IOCSEEKTO iowr) (b # us) =
    Returned (0, filp\<lparr>f_pos := of_nat (length (concat (take (ioctl_command b) (commands (abs_dev s)))) +
      ioctl_offset b)\<rparr>, s)"
  using ioctl_result [OF assms(1-5)] assms(6) by simp

theorem aesd_ioctl_seek_witness:
  "aesd_unlocked_ioctl (\<lambda>m n sz. of_nat (m * 256 + n)) ex_call [0, 0, 0, 0, 0, 0, 0, 0] ex_dev opened
     (AESDCHAR_IOCSEEKTO (\<lambda>m n sz. of_nat (m * 256 + n))) [17, 0, 0, 0, 0, 0, 0, 0] =
   Returned (0, opened\<lparr>f_pos := 4\<rparr>, ex_dev)"
  using aesd_ioctl_seek [of ex_dev opened ex_call 17 0 "\<lambda>m n sz. of_nat (m * 256 + n)"]
  by (simp add: ioctl_command_def ioctl_offset_def)

text \<open>C23. An ioctl for a command of ten or more answers \<^verbatim>\<open>-EINVAL\<close> and keeps the lock: from then
  on every read, write, seek and the unloading of the module block for ever (until a signal
  interrupts them).\<close>

theorem aesd_ioctl_keeps_lock:
  assumes "dev_inv s" "in_range s" "private_data filp" "\<not> interrupted k" "copy_in k [b] [j] = ([b], 0)"
    and "10 \<le> ioctl_command b"
  shows "\<exists>s'. aesd_unlocked_ioctl iowr k (j # js) s filp (AESDCHAR_IOCSEEKTO iowr) (b # us) =
      Returned (- EINVAL, filp, s') \<and>
    (\<not> interrupted k' \<longrightarrow>
      aesd_read k' s' filp' count pos = Blocked \<and>
      aesd_write k' s' filp' buf count pos = Blocked \<and>
      aesd_llseek k' s' filp' off whence = Blocked \<and>
      aesd_adjust_file_offset k' s' filp' c d = Blocked \<and>
      aesd_cleanup_module k' s' = Blocked)"
proof -
  have "aesd_unlocked_ioctl iowr k (j # js) s filp (AESDCHAR_IOCSEEKTO iowr) (b # us) =
      Returned (- EINVAL, filp, s\<lparr>lock := True\<rparr>)"
    using ioctl_result [OF assms(1-5)] assms(6) by simp
  then show ?thesis using locked_blocks [of "s\<lparr>lock := True\<rparr>" k'] by auto
qed

theorem aesd_ioctl_keeps_lock_witness:
  "\<exists>s'. aesd_unlocked_ioctl (\<lambda>m n sz. 5) ex_call (0 # [0]) ex_dev opened
      (AESDCHAR_IOCSEEKTO (\<lambda>m n sz. 5)) (160 # [0]) = Returned (- EINVAL, opened, s') \<and>
    aesd_write ex_call s' opened [10] 1 0 = Blocked"
  using aesd_ioctl_keeps_lock [of ex_dev opened ex_call 160 0 "\<lambda>m n sz. 5" "[0]" "[0]" ex_call opened 1 0 "[10]" 0 0 0 0]
  by (fastforce simp: ioctl_command_def)

section \<open>The life of the module\<close>

text \<open>C28. Loading the module with both registrations granted yields a good device with an empty
  log, registered, whatever the memory of \<^verbatim>\<open>aesd_device\<close> held before.\<close>

theorem aesd_init_module_ok:
  assumes "alloc_result r = 0" "cdev_add_result r = 0"
  shows "\<exists>s'. aesd_init_module r s = (0, s') \<and> dev_inv s' \<and> abs_dev s' = empty_log \<and>
    region s' \<and> cdev_live s' \<and> heap s' = heap s \<and> owned s' = {}"
  using assms by (rule init_ok)

theorem aesd_init_module_ok_witness:
  "\<exists>s'. aesd_init_module \<lparr>alloc_result = 0, alloc_major = 240, cdev_add_result = 0\<rparr> ex_dev = (0, s') \<and>
    abs_dev s' = empty_log"
  using aesd_init_module_ok [of "\<lparr>alloc_result = 0, alloc_major = 240, cdev_add_result = 0\<rparr>" ex_dev] by auto

text \<open>C25. Unloading does not free what the ring holds. With no partial write pending the memory is
  left exactly as it was, every stored command included; with a partial write pending and a
  command stored, the same block is freed twice, which is a fault.\<close>

theorem aesd_cleanup_module_frees_wrong:
  assumes "dev_inv s" "\<not> interrupted k"
  shows "if buffptr (buffer_entry s) = NULL
    then \<exists>s'. aesd_cleanup_module k s = Returned s' \<and> heap s' = heap s \<and> live_entries s' = live_entries s
    else live_entries s = [] \<or> aesd_cleanup_module k s = Oops DoubleFree"
  using cleanup_result [OF assms] by (auto split: option.splits if_splits)

theorem aesd_cleanup_module_frees_wrong_witness:
  "aesd_cleanup_module ex_call ex_dev = Oops DoubleFree"
  using aesd_cleanup_module_frees_wrong [of ex_dev ex_call] by simp

text \<open>C10. In every state the device can get into from a freshly loaded module, by any calls with
  any answers of the kernel, the representation invariant holds: the ring is well formed, every
  stored command owns its block alone, and the pending write owns its own.\<close>

theorem driver_reachable:
  assumes "reached loaded dev_step s"
  shows "core_inv s"
  using assms by (rule driver.reached_inv)

theorem driver_reachable_witness:
  "core_inv (snd (aesd_init_module \<lparr>alloc_result = 0, alloc_major = 240, cdev_add_result = 0\<rparr>
     (ex_dev\<lparr>heap := Map.empty\<rparr>)))"
proof (rule driver_reachable [OF reached_init])
  show "loaded (snd (aesd_init_module \<lparr>alloc_result = 0, alloc_major = 240, cdev_add_result = 0\<rparr>
     (ex_dev\<lparr>heap := Map.empty\<rparr>)))"
    unfolding loaded_def
    by (intro exI [of _ "\<lparr>alloc_result = 0, alloc_major = 240, cdev_add_result = 0\<rparr>"]
        exI [of _ "ex_dev\<lparr>heap := Map.empty\<rparr>"]) simp
qed

section \<open>Runs\<close>

text \<open>A sequence of writes that get what they ask for runs to its end and leaves the log that
  the abstract device computes from the same sequence of byte strings.\<close>

lemma write_seq_refines:
  assumes "dev_inv s" "good_calls s kbs"
    and "length (pending (abs_dev s)) + sum_list (map (\<lambda>kb. length (snd kb)) kbs) < 2 ^ 64"
  shows "\<exists>s'. write_seq s kbs = Returned s' \<and> dev_inv s' \<and>
    abs_dev s' = foldl spec_write (abs_dev s) (map snd kbs)"
  using assms by (rule write_seq_ok)

lemma write_seq_refines_example:
  "\<exists>s'. write_seq ex_dev [(ex_call, [101, 10])] = Returned s' \<and> dev_inv s' \<and>
    abs_dev s' = foldl spec_write (abs_dev ex_dev) [[101, 10]]"
proof -
  have "good_calls ex_dev [(ex_call, [101, 10])]"
    by (simp add: good_call_def split: outcome.splits)
  then show ?thesis using write_seq_refines [of ex_dev "[(ex_call, [101, 10])]"] by simp
qed

text \<open>C4. The device stores lines: from a good device with an empty log, writing any lines, each cut
  into any non-empty pieces, leaves the last ten of them, and reading from the start returns them
  end to end.\<close>

theorem lines_written_are_read_back:
  assumes "dev_inv s" "abs_dev s = empty_log" "good_calls s kbs"
    and "map snd kbs = concat pieces" "\<forall>cs \<in> set pieces. cs \<noteq> [] \<and> (\<forall>c \<in> set cs. c \<noteq> [])"
    and "\<forall>cs \<in> set pieces. last (concat cs) = newline \<and> newline \<notin> set (butlast (concat cs))"
    and "sum_list (map (\<lambda>kb. length (snd kb)) kbs) < 2 ^ 31"
  shows "\<exists>s'. write_seq s kbs = Returned s' \<and>
    commands (abs_dev s') = drop (length pieces - 10) (map concat pieces) \<and>
    fread_loop (dev_read s') 0 (2 ^ 31) = concat (drop (length pieces - 10) (map concat pieces))"
proof -
  obtain s' where s': "write_seq s kbs = Returned s'" "dev_inv s'"
      "abs_dev s' = foldl spec_write (abs_dev s) (map snd kbs)"
    using write_seq_ok [OF assms(1,3)] assms(2,7) by (auto simp: empty_log_def)
  note lines = spec_write_line_pieces [OF assms(5,6), of "abs_dev s"]
  have c: "abs_dev s' = \<lparr>commands = drop (length pieces - 10) (map concat pieces), pending = []\<rparr>"
    using lines s'(3) assms(2,4) by (simp add: empty_log_def)
  let ?log = "concat (drop (length pieces - 10) (map concat pieces))"
  have "length ?log \<le> length (concat (concat pieces))"
    by (rule length_concat_drop_pieces)
  also have "\<dots> = sum_list (map (\<lambda>kb. length (snd kb)) kbs)"
    by (simp flip: assms(4) add: length_concat comp_def)
  finally have len: "length ?log < 2 ^ 31" using assms(7) by simp
  then have "in_range s'"
    using s'(2) c length_log_bytes [of s'] by (simp add: in_range_def dev_inv_def log_bytes_def)
  then have "fread_loop (dev_read s') 0 (2 ^ 31) = take (2 ^ 31) ?log"
    using dev.fread_loop_take [of s' 0 "2 ^ 31"] s'(2) c by (simp add: log_bytes_def)
  with s'(1) c len show ?thesis by simp
qed

theorem lines_written_are_read_back_witness:
  "\<exists>s'. write_seq ex_empty_dev [(ex_call, [101, 10])] = Returned s' \<and> commands (abs_dev s') = [[101, 10]] \<and>
    fread_loop (dev_read s') 0 (2 ^ 31) = [101, 10]"
proof -
  have "good_calls ex_empty_dev [(ex_call, [101, 10])]"
    by (simp add: good_call_def split: outcome.splits)
  then show ?thesis
    using lines_written_are_read_back [of ex_empty_dev "[(ex_call, [101, 10])]" "[[[101, 10]]]"] by simp
qed

end
