(* ===== verification/Server_Text.thy ===== *)
theory Server_Text
  imports Kernel_Memory "HOL-Library.Sublist"
begin

text \<open>
  The text processing of \<^verbatim>\<open>server/aesdsocket.c\<close>: taking a packet up to its newline, and finding
  and reading the seek command in it. \<^verbatim>\<open>malloc\<close> and \<^verbatim>\<open>free\<close> work on the same model of memory as the
  kernel's allocator; the C library's \<^verbatim>\<open>strstr\<close> and \<^verbatim>\<open>sscanf\<close> are written out for what the server
  uses of them.
\<close>

unbundle bit_operations_syntax

definition BUFFER_SIZE :: nat where "BUFFER_SIZE = 100000"

definition text_bytes :: "string \<Rightarrow> byte list" where
  "text_bytes s = map of_char s"

section \<open>Up to the newline\<close>

text \<open>The first loop of \<^verbatim>\<open>extract_data_up_to_newline\<close>, from index \<open>i\<close>.\<close>

function newline_loop :: "byte list \<Rightarrow> int \<Rightarrow> nat \<Rightarrow> fault + nat option" where
  "newline_loop buf nread i =
     (if int i < nread then
        if i < length buf then
          if buf ! i = newline then Inr (Some i) else newline_loop buf nread (Suc i)
        else Inl OutOfBounds
      else Inr None)"
  by pat_completeness auto
termination
  by (relation "measure (\<lambda>(buf, nread, i). nat (nread - int i))") auto

declare newline_loop.simps [simp del]

text \<open>The second one copies the bytes \<open>j\<close> to \<open>j + n - 1\<close> of \<open>buf\<close> into a block.\<close>

fun copy_loop :: "heap \<Rightarrow> ptr \<Rightarrow> byte list \<Rightarrow> nat \<Rightarrow> nat \<Rightarrow> fault + heap" where
  "copy_loop h p buf j 0 = Inr h"
| "copy_loop h p buf j (Suc n) =
     (if j < length buf then
        (case store_bytes h p j [buf ! j] of Inl e \<Rightarrow> Inl e | Inr h' \<Rightarrow> copy_loop h' p buf (Suc j) n)
      else Inl OutOfBounds)"

text \<open>
  The result: the new string (\<open>NULL\<close> without memory), whether a newline was found, and the
  memory. \<open>m\<close> is what \<^verbatim>\<open>malloc\<close> answers.
\<close>

definition extract_data_up_to_newline ::
  "(nat \<times> (nat \<Rightarrow> byte)) option \<Rightarrow> heap \<Rightarrow> byte list \<Rightarrow> int \<Rightarrow> (ptr \<times> bool \<times> heap) outcome" where
  "extract_data_up_to_newline m h buf nread =
     ebind (newline_loop buf nread 0) (\<lambda>found.
       let new_line_found = (found \<noteq> None);
           new_line_index = (case found of Some i \<Rightarrow> int i | None \<Rightarrow> nread - 1);
           new_size = new_line_index + 2
       in case m of
            None \<Rightarrow> Returned (NULL, new_line_found, h)
          | Some (a, junk) \<Rightarrow>
              ebind (copy_loop (fresh_block h a junk (nat new_size)) (Some a) buf 0 (nat new_size)) (\<lambda>h1.
              ebind (store_bytes h1 (Some a) (nat (new_line_index + 1)) [0]) (\<lambda>h2.
                Returned (Some a, new_line_found, h2))))"

text \<open>What the function is for.\<close>

definition upto_newline :: "byte list \<Rightarrow> byte list" where
  "upto_newline xs =
     takeWhile (\<lambda>c. c \<noteq> newline) xs @ take 1 (dropWhile (\<lambda>c. c \<noteq> newline) xs)"

lemma newline_loop_result:
  "n \<le> length buf \<Longrightarrow> i \<le> n \<Longrightarrow>
    newline_loop buf (int n) i =
      Inr (if newline \<in> set (take (n - i) (drop i buf))
           then Some (i + length (takeWhile (\<lambda>c. c \<noteq> newline) (take (n - i) (drop i buf)))) else None)"
proof (induction "n - i" arbitrary: i)
  case 0
  then show ?case by (simp add: newline_loop.simps)
next
  case (Suc d)
  have i: "i < n" "i < length buf" using Suc by auto
  then have "take (n - i) (drop i buf) = buf ! i # take (n - Suc i) (drop (Suc i) buf)"
    by (simp add: Cons_nth_drop_Suc [symmetric] take_Cons' Suc_diff_Suc)
  then show ?case
    using Suc.hyps(1) [of "Suc i"] Suc.hyps(2) Suc.prems i by (subst newline_loop.simps) simp
qed

lemma copy_loop_result:
  assumes "h a = Some bs" "j + n \<le> length bs" "j + n \<le> length buf"
  shows "copy_loop h (Some a) buf j n = Inr (h(a \<mapsto> take j bs @ take n (drop j buf) @ drop (j + n) bs))"
  using assms
proof (induction n arbitrary: h j bs)
  case 0
  then show ?case by (simp add: fun_upd_idem)
next
  case (Suc n)
  let ?bs = "take j bs @ buf ! j # drop (Suc j) bs"
  have "store_bytes h (Some a) j [buf ! j] = Inr (h(a \<mapsto> ?bs))"
    using Suc.prems by (simp add: store_bytes_def)
  moreover have "copy_loop (h(a \<mapsto> ?bs)) (Some a) buf (Suc j) n =
      Inr ((h(a \<mapsto> ?bs))(a \<mapsto> take (Suc j) ?bs @ take n (drop (Suc j) buf) @ drop (Suc j + n) ?bs))"
    using Suc.prems by (intro Suc.IH) simp_all
  moreover have "take (Suc n) (drop j buf) = buf ! j # take n (drop (Suc j) buf)"
    using Suc.prems(3) by (simp add: Cons_nth_drop_Suc [symmetric] take_Cons')
  ultimately show ?case using Suc.prems by (simp add: add.commute) (simp add: fun_eq_iff)
qed

lemma upto_newline_cases:
  "newline \<in> set xs \<Longrightarrow> upto_newline xs = take (Suc (length (takeWhile (\<lambda>c. c \<noteq> newline) xs))) xs"
  "newline \<notin> set xs \<Longrightarrow> upto_newline xs = xs"
  by (induction xs) (auto simp: upto_newline_def)

lemma takeWhile_newline_less:
  "newline \<in> set xs \<Longrightarrow> length (takeWhile (\<lambda>c. c \<noteq> newline) xs) < length xs"
  by (induction xs) auto

lemma extract_result:
  assumes "0 < length data" "length data < length buf" "take (length data) buf = data"
    and "m = Some (a, junk)" "a \<notin> dom h"
  shows "extract_data_up_to_newline m h buf (int (length data)) =
    Returned (Some a, newline \<in> set data, h(a \<mapsto> upto_newline data @ [0]))"
proof -
  let ?n = "length data" and ?tw = "takeWhile (\<lambda>c. c \<noteq> newline) data"
  have found: "newline_loop buf (int ?n) 0 = Inr (if newline \<in> set data then Some (length ?tw) else None)"
    using assms(2,3) newline_loop_result [of ?n buf 0] by simp
  define k where "k = (if newline \<in> set data then Suc (length ?tw) else ?n)"
  have "length ?tw < ?n" if "newline \<in> set data"
    using that by (rule takeWhile_newline_less)
  then have k: "k \<le> ?n" "0 < k" using assms(1) by (auto simp: k_def intro: Suc_leI)
  have up: "take k buf = upto_newline data"
  proof -
    have "take k buf = take k data" using k(1) assms(3) by (metis min.absorb1 take_take)
    then show ?thesis by (simp add: k_def upto_newline_cases)
  qed
  have size: "(case (if newline \<in> set data then Some (length ?tw) else None) of
      Some i \<Rightarrow> int i | None \<Rightarrow> int ?n - 1) = int k - 1"
    using assms(1) by (simp add: k_def)
  have copy: "copy_loop (fresh_block h a junk (Suc k)) (Some a) buf 0 (Suc k) =
      Inr ((fresh_block h a junk (Suc k))(a \<mapsto> take (Suc k) buf))"
    using k(1) assms(2)
    by (subst copy_loop_result [where bs = "map junk [0..<Suc k]"]) (simp_all add: fresh_block_def)
  have "store_bytes ((fresh_block h a junk (Suc k))(a \<mapsto> take (Suc k) buf)) (Some a) k [0] =
      Inr (h(a \<mapsto> take k buf @ [0]))"
    using k(1) assms(2) by (simp add: store_bytes_def fresh_block_def)
  moreover have "nat (int k - 1 + 2) = Suc k" "nat (int k - 1 + 1) = k" using k(2) by simp_all
  moreover have "((if newline \<in> set data then Some (length ?tw) else None) \<noteq> None) = (newline \<in> set data)"
    by simp
  ultimately show ?thesis
    using copy up unfolding extract_data_up_to_newline_def found assms(4)
    by (simp only: ebind.simps size Let_def option.case prod.case)
qed

lemma extract_no_memory:
  assumes "length data \<le> length buf"
  shows "\<exists>nl. extract_data_up_to_newline None h buf (int (length data)) = Returned (NULL, nl, h)"
  using newline_loop_result [OF assms, of 0] by (simp add: extract_data_up_to_newline_def Let_def)

section \<open>Strings of C\<close>

text \<open>The bytes a pointer is read as by \<^verbatim>\<open>%s\<close> and \<^verbatim>\<open>strstr\<close>: up to the first zero.\<close>

definition until_zero :: "byte list \<Rightarrow> byte list" where
  "until_zero xs = takeWhile (\<lambda>c. c \<noteq> 0) xs"

definition c_string :: "heap \<Rightarrow> ptr \<Rightarrow> fault + byte list" where
  "c_string h p = (case p of
     None \<Rightarrow> Inl NullDeref
   | Some a \<Rightarrow> (case h a of
       None \<Rightarrow> Inl UseAfterFree
     | Some bs \<Rightarrow> if 0 \<in> set bs then Inr (until_zero bs) else Inl OutOfBounds))"

lemma until_zero_id: "0 \<notin> set xs \<Longrightarrow> until_zero xs = xs"
  by (induction xs) (auto simp: until_zero_def)

lemma until_zero_append [simp]: "until_zero (xs @ [0]) = until_zero xs"
  by (induction xs) (simp_all add: until_zero_def)

lemma c_string_live: "h a = Some (xs @ [0]) \<Longrightarrow> c_string h (Some a) = Inr (until_zero xs)"
  by (simp add: c_string_def)

text \<open>The suffix of \<open>hay\<close> that starts with the first occurrence of \<open>needle\<close>.\<close>

fun strstr :: "byte list \<Rightarrow> byte list \<Rightarrow> byte list option" where
  "strstr [] needle = (if needle = [] then Some [] else None)"
| "strstr (c # cs) needle =
     (if take (length needle) (c # cs) = needle then Some (c # cs) else strstr cs needle)"

lemma take_eq_prefix: "take (length xs) ys = xs \<longleftrightarrow> prefix xs ys"
  by (metis append_eq_conv_conj prefix_def)

lemma strstr_None_iff: "strstr hay needle = None \<longleftrightarrow> \<not> sublist needle hay"
  by (induction hay needle rule: strstr.induct) (simp_all add: take_eq_prefix sublist_Cons_right)

lemma strstr_prefix: "strstr (needle @ rest) needle = Some (needle @ rest)"
  by (cases "needle @ rest") (simp_all, metis append_eq_conv_conj)

section \<open>Reading numbers\<close>

definition is_digit :: "byte \<Rightarrow> bool" where "is_digit c \<longleftrightarrow> 48 \<le> c \<and> c \<le> 57"
definition is_space :: "byte \<Rightarrow> bool" where "is_space c \<longleftrightarrow> c = 32 \<or> 9 \<le> c \<and> c \<le> 13"

definition digits_value :: "byte list \<Rightarrow> int" where
  "digits_value ds = foldl (\<lambda>v c. 10 * v + (uint c - 48)) 0 ds"

text \<open>
  One \<^verbatim>\<open>%d\<close>: white space, a sign, digits. The value is kept within \<^verbatim>\<open>long\<close>, as the C library's
  conversion does, and the store to the \<^verbatim>\<open>int\<close> object keeps the low 32 bits. The answer is the
  stored value and the rest of the input; without digits nothing matches.
\<close>

definition scan_int :: "byte list \<Rightarrow> (uint32_t \<times> byte list) option" where
  "scan_int xs =
     (let ys = dropWhile is_space xs;
          neg = (ys \<noteq> [] \<and> hd ys = 45);
          zs = (if ys \<noteq> [] \<and> (hd ys = 45 \<or> hd ys = 43) then tl ys else ys);
          ds = takeWhile is_digit zs;
          v = (if neg then - digits_value ds else digits_value ds)
      in if ds = [] then None
         else Some (word_of_int (max (- (2 ^ 63)) (min (2 ^ 63 - 1) v)), dropWhile is_digit zs))"

text \<open>
  \<^verbatim>\<open>sscanf(s, "%d,%d", &a, &b)\<close>: stops at the first directive that does not match; what was not
  converted keeps its value.
\<close>

definition scan_pair :: "byte list \<Rightarrow> uint32_t \<Rightarrow> uint32_t \<Rightarrow> uint32_t \<times> uint32_t" where
  "scan_pair s a b = (case scan_int s of
     None \<Rightarrow> (a, b)
   | Some (a', rest) \<Rightarrow>
       if rest \<noteq> [] \<and> hd rest = 44 then
         (case scan_int (tl rest) of None \<Rightarrow> (a', b) | Some (b', _) \<Rightarrow> (a', b'))
       else (a', b))"

text \<open>The decimal text of a number, and that it is read back.\<close>

fun decimal :: "nat \<Rightarrow> byte list" where
  "decimal n = (if n < 10 then [of_nat (48 + n)] else decimal (n div 10) @ [of_nat (48 + n mod 10)])"

declare decimal.simps [simp del]

lemma decimal_small: "n < 10 \<Longrightarrow> decimal n = [of_nat (48 + n)]"
  by (simp add: decimal.simps)

lemma decimal_big: "\<not> n < 10 \<Longrightarrow> decimal n = decimal (n div 10) @ [of_nat (48 + n mod 10)]"
  by (simp add: decimal.simps [of n])

lemma digit_facts:
  assumes "d < 10"
  shows "is_digit (of_nat (48 + d))" "uint (of_nat (48 + d) :: byte) = 48 + int d"
proof -
  have "(48 + d) mod 256 = 48 + d" using assms by simp
  then have u: "unat (of_nat (48 + d) :: byte) = 48 + d" by (simp only: unat_of_nat) simp
  then show "uint (of_nat (48 + d) :: byte) = 48 + int d" by (metis of_nat_add of_nat_numeral uint_nat)
  show "is_digit (of_nat (48 + d))"
    using u assms by (simp add: is_digit_def word_le_nat_alt)
qed

lemma decimal_digits: "decimal n \<noteq> [] \<and> (\<forall>c \<in> set (decimal n). is_digit c)"
proof (induction n rule: decimal.induct)
  case (1 n)
  show ?case
  proof (cases "n < 10")
    case True
    then show ?thesis using digit_facts(1) [OF True] by (simp only: decimal_small) simp
  next
    case False
    have "n mod 10 < 10" by simp
    from digit_facts(1) [OF this] 1 [OF False] show ?thesis by (simp only: decimal_big [OF False]) auto
  qed
qed

lemma digits_value_decimal: "digits_value (decimal n) = int n"
proof (induction n rule: decimal.induct)
  case (1 n)
  show ?case
  proof (cases "n < 10")
    case True
    from digit_facts(2) [OF True] show ?thesis
      by (simp only: decimal_small [OF True] digits_value_def foldl.simps)
  next
    case False
    have d: "n mod 10 < 10" by simp
    have "digits_value (decimal n) = 10 * digits_value (decimal (n div 10)) + int (n mod 10)"
      using digit_facts(2) [OF d]
      by (simp only: decimal_big [OF False] digits_value_def foldl_append foldl.simps)
    also have "\<dots> = int (10 * (n div 10) + n mod 10)" by (simp only: 1 [OF False] of_nat_add of_nat_mult of_nat_numeral)
    finally show ?thesis by (simp only: mult_div_mod_eq)
  qed
qed

lemma is_digit_not_space: "is_digit c \<Longrightarrow> \<not> is_space c \<and> c \<noteq> 45 \<and> c \<noteq> 43"
  by (auto simp: is_digit_def is_space_def word_le_nat_alt)

lemma scan_int_decimal:
  assumes "rest = [] \<or> \<not> is_digit (hd rest)" "n < 2 ^ 32"
  shows "scan_int (decimal n @ rest) = Some (of_nat n, rest)"
proof -
  obtain c cs where d: "decimal n = c # cs" "is_digit c" using decimal_digits [of n] by (cases "decimal n") auto
  note c = is_digit_not_space [OF d(2)]
  have all: "\<forall>x \<in> set (decimal n). is_digit x" using decimal_digits by blast
  have dw: "dropWhile is_space (decimal n @ rest) = decimal n @ rest" using d c by simp
  have sign: "\<not> (decimal n @ rest \<noteq> [] \<and> hd (decimal n @ rest) = 45)"
    "\<not> (decimal n @ rest \<noteq> [] \<and> (hd (decimal n @ rest) = 45 \<or> hd (decimal n @ rest) = 43))"
    using d c by simp_all
  have r: "takeWhile is_digit rest = []" "dropWhile is_digit rest = rest"
    using assms(1) by (cases rest; simp)+
  then have ds: "takeWhile is_digit (decimal n @ rest) = decimal n" "dropWhile is_digit (decimal n @ rest) = rest"
    using all by (simp_all add: takeWhile_append dropWhile_append)
  have ne: "decimal n \<noteq> []" using d by simp
  have "max (- (2 ^ 63)) (min (2 ^ 63 - 1) (digits_value (decimal n))) = int n"
    using assms(2) by (simp add: digits_value_decimal min_def max_def)
  then show ?thesis
    unfolding scan_int_def Let_def dw ds if_not_P [OF sign(1)] if_not_P [OF sign(2)] if_not_P [OF ne]
    by simp
qed

lemma scan_pair_decimal:
  assumes "c < 2 ^ 32" "d < 2 ^ 32" "rest = [] \<or> \<not> is_digit (hd rest)"
  shows "scan_pair (decimal c @ 44 # decimal d @ rest) a b = (of_nat c, of_nat d)"
proof -
  have "\<not> is_digit 44" by (simp add: is_digit_def)
  then have "scan_int (decimal c @ 44 # decimal d @ rest) = Some (of_nat c, 44 # decimal d @ rest)"
    using assms(1) by (intro scan_int_decimal) simp_all
  with scan_int_decimal [OF assms(3,2)] show ?thesis by (simp add: scan_pair_def)
qed

end
