(* ===== verification/Stdio.thy ===== *)
theory Stdio
  imports Driver_System
begin

text \<open>
  What the user programs of the repository use of the C library's streams, over any file that
  offers \<^verbatim>\<open>read\<close> and \<^verbatim>\<open>write\<close>: a stream cuts its output into writes and its input into reads as
  it likes, goes on after a short write and gives up at a negative answer. The cuts and the
  kernel's answers are the list \<open>io\<close>, one element for each system call; when the list ends
  before the stream is done the call has not returned (\<open>Blocked\<close>). The contract of the file is
  the locale \<open>stream_file\<close>, interpreted on the entry points of the driver.
\<close>

section \<open>Output\<close>

type_synonym ('k, 's) writer = "'k \<Rightarrow> 's \<Rightarrow> struct_file \<Rightarrow> byte list \<Rightarrow> (ssize_t \<times> struct_file \<times> 's) outcome"
type_synonym ('k, 's) reader = "'k \<Rightarrow> 's \<Rightarrow> struct_file \<Rightarrow> nat \<Rightarrow> (ssize_t \<times> struct_file \<times> byte list \<times> 's) outcome"

fun stdio_write :: "('k, 's) writer \<Rightarrow> (nat \<times> 'k) list \<Rightarrow> 's \<Rightarrow> struct_file \<Rightarrow> byte list \<Rightarrow> 's outcome" where
  "stdio_write wr [] s f bs = (if bs = [] then Returned s else Blocked)"
| "stdio_write wr ((m, k) # io) s f bs =
     (if bs = [] then Returned s
      else obind (wr k s f (take (max 1 m) bs)) (\<lambda>(r, f', s').
        if r <s 0 then Returned s'
        else stdio_write wr io s' f' (drop (unat r) bs)))"

text \<open>A condition on each system call of a run, in the state the call is made in.\<close>

fun stdio_calls ::
  "('k \<Rightarrow> 's \<Rightarrow> byte list \<Rightarrow> bool) \<Rightarrow> ('k, 's) writer \<Rightarrow> (nat \<times> 'k) list \<Rightarrow> 's \<Rightarrow> struct_file \<Rightarrow> byte list \<Rightarrow> bool" where
  "stdio_calls P wr [] s f bs = True"
| "stdio_calls P wr ((m, k) # io) s f bs =
     (bs = [] \<or> P k s (take (max 1 m) bs) \<and>
      (case wr k s f (take (max 1 m) bs) of
         Returned (r, f', s') \<Rightarrow> r <s 0 \<or> stdio_calls P wr io s' f' (drop (unat r) bs)
       | _ \<Rightarrow> True))"

text \<open>The pieces a stream makes of a text when every write takes what it is offered.\<close>

fun pieces_of :: "nat list \<Rightarrow> 'a list \<Rightarrow> 'a list list" where
  "pieces_of [] xs = (if xs = [] then [] else [xs])"
| "pieces_of (n # ns) xs = (if xs = [] then [] else take (max 1 n) xs # pieces_of ns (drop (max 1 n) xs))"

lemma concat_pieces_of [simp]: "concat (pieces_of ns xs) = xs"
  by (induction ns arbitrary: xs) simp_all

lemma pieces_of_nonempty: "c \<in> set (pieces_of ns xs) \<Longrightarrow> c \<noteq> []"
  by (induction ns arbitrary: xs) (auto split: if_splits)

lemma pieces_of_eq_Nil [simp]: "pieces_of ns xs = [] \<longleftrightarrow> xs = []"
  by (cases ns) simp_all

lemma stdio_write_keeps:
  assumes "stdio_write wr io s f bs = Returned s'" "stdio_calls P wr io s f bs" "I s" "F f"
    and step: "\<And>k s f xs r f' s'. I s \<Longrightarrow> F f \<Longrightarrow> xs \<noteq> [] \<Longrightarrow> P k s xs \<Longrightarrow>
      wr k s f xs = Returned (r, f', s') \<Longrightarrow> I s' \<and> F f'"
  shows "I s'"
  using assms(1-4)
proof (induction io arbitrary: s f bs)
  case (Cons mk io)
  obtain m k where mk: "mk = (m, k)" by (cases mk)
  show ?case
  proof (cases "bs = []")
    case False
    then obtain r f1 s1 where w: "wr k s f (take (max 1 m) bs) = Returned (r, f1, s1)"
        "(if r <s 0 then Returned s1 else stdio_write wr io s1 f1 (drop (unat r) bs)) = Returned s'"
      using Cons.prems(1) mk by (auto simp: obind_Returned_iff)
    have "I s1 \<and> F f1"
      using step [OF Cons.prems(3,4) _ _ w(1)] Cons.prems(2) False mk by simp
    with Cons w False mk show ?thesis by (auto split: if_splits)
  qed (use Cons mk in simp)
qed (simp split: if_splits)

lemma pieces_of_Nil [simp]: "pieces_of ns [] = []"
  by simp

section \<open>Input\<close>

text \<open>\<^verbatim>\<open>fread\<close> of \<open>n\<close> bytes: reads until it has them, the file ends or a read fails.\<close>

fun stdio_read :: "('k, 's) reader \<Rightarrow> (nat \<times> 'k) list \<Rightarrow> 's \<Rightarrow> struct_file \<Rightarrow> nat \<Rightarrow> (byte list \<times> 's) outcome" where
  "stdio_read rd [] s f n = (if n = 0 then Returned ([], s) else Blocked)"
| "stdio_read rd ((m, k) # io) s f n =
     (if n = 0 then Returned ([], s)
      else obind (rd k s f (max 1 m)) (\<lambda>(r, f', data, s').
        if r \<le>s 0 then Returned ([], s')
        else if n \<le> unat r then Returned (take n data, s')
        else obind (stdio_read rd io s' f' (n - unat r)) (\<lambda>(rest, s''). Returned (data @ rest, s''))))"

lemma stdio_read_ConsE:
  assumes "stdio_read rd ((m, k) # io) s f n = Returned (data, s')" "n \<noteq> 0"
  obtains r f1 xs s1 where "rd k s f (max 1 m) = Returned (r, f1, xs, s1)"
      "r \<le>s 0 \<and> data = [] \<and> s' = s1 \<or>
       \<not> r \<le>s 0 \<and> n \<le> unat r \<and> data = take n xs \<and> s' = s1 \<or>
       (\<exists>rest. \<not> r \<le>s 0 \<and> unat r < n \<and> stdio_read rd io s1 f1 (n - unat r) = Returned (rest, s') \<and>
         data = xs @ rest)"
  using assms by (auto simp: obind_Returned_iff not_le split: if_splits)

lemma stdio_read_keeps:
  assumes "stdio_read rd io s f n = Returned (data, s')" "I s"
    and step: "\<And>m k s f r f' xs s'. I s \<Longrightarrow> rd k s f m = Returned (r, f', xs, s') \<Longrightarrow> I s'"
  shows "I s'"
  using assms(1,2)
proof (induction io arbitrary: s f n data)
  case (Cons mk io)
  obtain m k where mk: "mk = (m, k)" by (cases mk)
  show ?case
  proof (cases "n = 0")
    case False
    from Cons.prems(1) [unfolded mk] False show ?thesis
      by (rule stdio_read_ConsE) (use Cons step in blast)
  qed (use Cons mk in simp)
qed (auto split: if_splits)

text \<open>At most \<open>n\<close> bytes come back, when a read returns as many bytes as it says.\<close>

lemma stdio_read_length:
  assumes "stdio_read rd io s f n = Returned (data, s')"
    and len: "\<And>m k s f r f' xs s'. rd k s f m = Returned (r, f', xs, s') \<Longrightarrow> \<not> r \<le>s 0 \<Longrightarrow> length xs = unat r"
  shows "length data \<le> n"
  using assms(1)
proof (induction io arbitrary: s f n data)
  case (Cons mk io)
  obtain m k where mk: "mk = (m, k)" by (cases mk)
  show ?case
  proof (cases "n = 0")
    case False
    from Cons.prems(1) [unfolded mk] False show ?thesis
      by (rule stdio_read_ConsE) (use Cons.IH len in fastforce)
  qed (use Cons mk in simp)
qed (auto split: if_splits)

text \<open>What comes back is what follows the position, when that holds for every read that returns bytes.\<close>

lemma stdio_read_prefix:
  assumes "stdio_read rd io s f n = Returned (data, s')" "good s f"
    and step: "\<And>m k s f r f' xs s'. good s f \<Longrightarrow> rd k s f m = Returned (r, f', xs, s') \<Longrightarrow> \<not> r \<le>s 0 \<Longrightarrow>
      good s' f' \<and> content s' = content s \<and> length xs = unat r \<and>
      xs = take (unat r) (drop (unat (f_pos f)) (content s)) \<and> unat (f_pos f') = unat (f_pos f) + unat r"
  shows "data = take (length data) (drop (unat (f_pos f)) (content s))"
  using assms(1,2)
proof (induction io arbitrary: s f n data)
  case (Cons mk io)
  obtain m k where mk: "mk = (m, k)" by (cases mk)
  show ?case
  proof (cases "n = 0")
    case False
    let ?xs = "drop (unat (f_pos f)) (content s)"
    obtain r f1 xs s1 where r: "rd k s f (max 1 m) = Returned (r, f1, xs, s1)"
      and c: "r \<le>s 0 \<and> data = [] \<and> s' = s1 \<or>
       \<not> r \<le>s 0 \<and> n \<le> unat r \<and> data = take n xs \<and> s' = s1 \<or>
       (\<exists>rest. \<not> r \<le>s 0 \<and> unat r < n \<and> stdio_read rd io s1 f1 (n - unat r) = Returned (rest, s') \<and>
         data = xs @ rest)"
      using Cons.prems(1) [unfolded mk] False by (rule stdio_read_ConsE)
    show ?thesis
    proof (cases "r \<le>s 0")
      case neg: False
      note st = step [OF Cons.prems(2) r neg]
      then have len: "length xs = unat r" by blast
      from c neg consider "data = take n xs" | rest where "data = xs @ rest"
          "stdio_read rd io s1 f1 (n - unat r) = Returned (rest, s')" by blast
      then show ?thesis
      proof cases
        case 1
        have x: "xs = take (unat r) ?xs" using st by blast
        show ?thesis unfolding 1 by (subst (1 2) x) (simp add: min_def)
      next
        case 2
        have "rest = take (length rest) (drop (unat (f_pos f1)) (content s1))"
          using Cons.IH [OF 2(2)] st by blast
        also have "drop (unat (f_pos f1)) (content s1) = drop (unat r) ?xs" using st by (simp add: add.commute)
        finally have "data = take (unat r) ?xs @ take (length rest) (drop (unat r) ?xs)" using st 2(1) by metis
        also have "\<dots> = take (unat r + length rest) ?xs" by (simp only: take_add)
        also have "unat r + length rest = length data" using len by (simp only: 2(1) length_append)
        finally show ?thesis .
      qed
    qed (use c in auto)
  qed (use Cons mk in simp)
qed (auto split: if_splits)

section \<open>The contract of a file\<close>

lemma sless_zero_size:
  "unat (n :: 64 word) < 2 ^ 63 \<Longrightarrow> \<not> n <s 0"
  "unat n < 2 ^ 63 \<Longrightarrow> n \<le>s 0 \<longleftrightarrow> n = 0"
  by (simp_all add: word_sless_alt word_sle_eq sint_small unsigned_eq_0_iff)

text \<open>
  \<open>log s\<close> is the abstract content of a good file, \<open>app\<close> what one write does to it and \<open>content\<close>
  what a reader sees. \<open>room\<close> measures what a write may not make too large. \<open>can_write\<close> and
  \<open>can_read\<close> say that the kernel grants what the call asks for.
\<close>

locale stream_file =
  fixes wr :: "('k, 's) writer" and rd :: "('k, 's) reader"
    and good :: "'s \<Rightarrow> bool" and small :: "'s \<Rightarrow> bool" and opened_file :: "struct_file \<Rightarrow> bool"
    and log :: "'s \<Rightarrow> 'l" and app :: "'l \<Rightarrow> byte list \<Rightarrow> 'l" and content :: "'l \<Rightarrow> byte list"
    and room :: "'l \<Rightarrow> nat" and can_write :: "'k \<Rightarrow> 's \<Rightarrow> bool" and can_read :: "'k \<Rightarrow> bool"
  assumes wr_ok: "good s \<Longrightarrow> opened_file f \<Longrightarrow> can_write k s \<Longrightarrow> bs \<noteq> [] \<Longrightarrow>
      room (log s) + length bs < 2 ^ 63 \<Longrightarrow>
      \<exists>f' s'. wr k s f bs = Returned (of_nat (length bs), f', s') \<and> opened_file f' \<and> good s' \<and>
        log s' = app (log s) bs"
    and room_app: "room (app l bs) \<le> room l + length bs"
    and content_small: "good s \<Longrightarrow> small s \<Longrightarrow> length (content (log s)) < 2 ^ 63"
    and rd_ok: "good s \<Longrightarrow> small s \<Longrightarrow> opened_file f \<Longrightarrow> can_read k \<Longrightarrow> 0 < m \<Longrightarrow> m < 2 ^ 63 \<Longrightarrow>
      \<exists>n data. rd k s f m = Returned (n, f\<lparr>f_pos := f_pos f + n\<rparr>, data, s) \<and>
        opened_file (f\<lparr>f_pos := f_pos f + n\<rparr>) \<and>
        data = take (unat n) (drop (unat (f_pos f)) (content (log s))) \<and> length data = unat n \<and>
        unat n \<le> m \<and> (data = [] \<longleftrightarrow> length (content (log s)) \<le> unat (f_pos f))"
begin

lemma stdio_write_all:
  assumes "good s" "opened_file f" "stdio_calls (\<lambda>k s xs. can_write k s) wr io s f bs"
    and "length bs \<le> length io" "room (log s) + length bs < 2 ^ 63"
  shows "\<exists>s'. stdio_write wr io s f bs = Returned s' \<and> good s' \<and>
    log s' = foldl app (log s) (pieces_of (map fst io) bs)"
  using assms
proof (induction io arbitrary: s f bs)
  case Nil
  then show ?case by simp
next
  case (Cons mk io)
  obtain m k where mk: "mk = (m, k)" by (cases mk)
  show ?case
  proof (cases "bs = []")
    case False
    let ?p = "take (max 1 m) bs" and ?q = "drop (max 1 m) bs"
    have k: "can_write k s" using Cons.prems(3) False mk by simp
    have len: "length ?p + length ?q = length bs" "0 < length ?p"
      using False by (simp_all flip: length_append)
    have room: "room (log s) + length ?p < 2 ^ 63" using Cons.prems(5) len by simp
    obtain f1 s1 where w: "wr k s f ?p = Returned (of_nat (length ?p), f1, s1)" "opened_file f1" "good s1"
        "log s1 = app (log s) ?p"
      using wr_ok [OF Cons.prems(1,2) k _ room] False by auto
    have u: "unat (of_nat (length ?p) :: ssize_t) = length ?p"
      using room by (intro unat_of_nat_size) simp
    then have pos: "\<not> (of_nat (length ?p) :: ssize_t) <s 0"
      using room by (intro sless_zero_size) simp
    have q: "drop (length ?p) bs = ?q"
      by (metis append_eq_conv_conj append_take_drop_id)
    have "\<exists>s'. stdio_write wr io s1 f1 ?q = Returned s' \<and> good s' \<and>
        log s' = foldl app (log s1) (pieces_of (map fst io) ?q)"
    proof (rule Cons.IH [OF w(3,2)])
      show "stdio_calls (\<lambda>k s xs. can_write k s) wr io s1 f1 ?q"
        using Cons.prems(3) False w(1) u pos q mk by (simp del: length_take)
      show "length ?q \<le> length io" using Cons.prems(4) False by simp
      show "room (log s1) + length ?q < 2 ^ 63"
        using room_app [of "log s" ?p] Cons.prems(5) len w(4) by simp
    qed
    with w u pos q False mk show ?thesis by (simp del: length_take)
  qed (use Cons.prems mk in simp)
qed

lemma stdio_read_all:
  assumes "good s" "small s" "opened_file f" "\<forall>(m, k) \<in> set io. can_read k \<and> m < 2 ^ 63"
    and "length (drop (unat (f_pos f)) (content (log s))) < length io"
  shows "stdio_read rd io s f n = Returned (take n (drop (unat (f_pos f)) (content (log s))), s)"
  using assms(3-5)
proof (induction io arbitrary: f n)
  case Nil
  then show ?case by simp
next
  case (Cons mk io)
  obtain m k where mk: "mk = (m, k)" by (cases mk)
  let ?xs = "drop (unat (f_pos f)) (content (log s))"
  show ?case
  proof (cases "n = 0")
    case False
    have k: "can_read k" "0 < max 1 m" "max 1 m < 2 ^ 63" using Cons.prems(2) mk by auto
    obtain r data where r: "rd k s f (max 1 m) = Returned (r, f\<lparr>f_pos := f_pos f + r\<rparr>, data, s)"
        "opened_file (f\<lparr>f_pos := f_pos f + r\<rparr>)" "data = take (unat r) ?xs" "length data = unat r"
        "unat r \<le> max 1 m" "data = [] \<longleftrightarrow> length (content (log s)) \<le> unat (f_pos f)"
      using rd_ok [OF assms(1,2) Cons.prems(1) k] by blast
    have sl: "r \<le>s 0 \<longleftrightarrow> data = []"
      using sless_zero_size(2) [of r] r(4,5) k(3) by (auto simp: unsigned_eq_0_iff)
    show ?thesis
    proof (cases "data = []")
      case True
      with r sl False mk show ?thesis by simp
    next
      case data: False
      have fits: "unat r \<le> length ?xs" using r(3,4) by (metis length_take min.cobounded1)
      then have "unat (f_pos f) + unat r < 2 ^ 64"
        using content_small [OF assms(1,2)] data r(6) by simp
      then have pos: "unat (f_pos f + r) = unat (f_pos f) + unat r" by (rule unat_add_size)
      have rest: "drop (unat (f_pos f + r)) (content (log s)) = drop (unat r) ?xs"
        using pos by (simp add: add.commute)
      show ?thesis
      proof (cases "n \<le> unat r")
        case True
        then have "take n data = take n ?xs" using r(3) by (simp add: min_def)
        with True r(1) sl data False mk show ?thesis by simp
      next
        case n: False
        have "stdio_read rd io s (f\<lparr>f_pos := f_pos f + r\<rparr>) (n - unat r) =
            Returned (take (n - unat r) (drop (unat (f_pos (f\<lparr>f_pos := f_pos f + r\<rparr>))) (content (log s))), s)"
        proof (rule Cons.IH)
          have "0 < unat r" using data r(4) by (metis length_greater_0_conv)
          then show "length (drop (unat (f_pos (f\<lparr>f_pos := f_pos f + r\<rparr>))) (content (log s))) < length io"
            using Cons.prems(3) rest fits by simp
        qed (use r(2) Cons.prems(2) in simp_all)
        moreover have "take n ?xs = take (unat r) ?xs @ take (n - unat r) (drop (unat r) ?xs)"
          using n by (metis le_add_diff_inverse nat_le_linear take_add)
        ultimately show ?thesis
          using n r(1,3) sl data False mk rest by simp
      qed
    qed
  qed (use mk in simp)
qed

end

end
