(* ===== verification/Device_File.thy ===== *)
theory Device_File
  imports Stdio
begin

text \<open>
  The device as a file: the entry points of \<open>aesd_fops\<close> with the file position kept in the open
  file, as the kernel's \<^verbatim>\<open>read\<close> and \<^verbatim>\<open>write\<close> call them, and the contract of a stream on it.
\<close>

definition dev_wr :: "(kernel_call, kstate) writer" where
  "dev_wr k s f bs = obind (aesd_write k s f bs (of_nat (length bs)) (f_pos f)) (\<lambda>(r, pos, s').
     Returned (r, f\<lparr>f_pos := pos\<rparr>, s'))"

definition dev_rd :: "(kernel_call, kstate) reader" where
  "dev_rd k s f n = obind (aesd_read k s f (of_nat n) (f_pos f)) (\<lambda>(r, pos, data, s').
     Returned (r, f\<lparr>f_pos := pos\<rparr>, data, s'))"

definition good_read :: "kernel_call \<Rightarrow> bool" where
  "good_read k \<longleftrightarrow> \<not> interrupted k \<and> (\<forall>src. copy_out k src = 0)"

interpretation dev_file: stream_file dev_wr dev_rd dev_inv in_range private_data abs_dev spec_write
    log_bytes "\<lambda>l. length (pending l)" good_call good_read
proof (unfold_locales, goal_cases)
  case (1 s f k bs)
  then show ?case using write_good [of s k f bs "f_pos f"] by (auto simp: dev_wr_def)
next
  case (2 l bs)
  then show ?case by (rule length_pending_write)
next
  case (3 s)
  then show ?case using length_log_bytes [of s] by (simp add: dev_inv_def in_range_def)
next
  case (4 s f k m)
  have u: "unat (of_nat m :: size_t) = m" using 4 by (intro unat_of_nat_size) simp
  then have nz: "(of_nat m :: size_t) \<noteq> 0" using 4(5) by force
  have r: "private_data f" "\<not> interrupted k" "\<And>src. copy_out k src = 0"
    using 4 by (auto simp: good_read_def)
  show ?case
    using read_ok [OF 4(1,2) r, of "of_nat m" "f_pos f"] 4(3) u nz by (auto simp: dev_rd_def)
qed

section \<open>Any answers\<close>

text \<open>A call the kernel may answer as it likes: an allocation is new, a copy pads with zeros.\<close>

definition legal_write :: "kernel_call \<Rightarrow> kstate \<Rightarrow> byte list \<Rightarrow> bool" where
  "legal_write k s bs \<longleftrightarrow> alloc_ok k (heap s) \<and> copy_in_ok k \<and>
     unat (bsize (buffer_entry s)) + length bs < 2 ^ 64"

lemma dev_wr_core_inv:
  assumes "core_inv s" "private_data f" "legal_write k s bs" "dev_wr k s f bs = Returned (r, f', s')"
  shows "core_inv s'" "private_data f'"
proof -
  obtain pos where w: "aesd_write k s f bs (of_nat (length bs)) (f_pos f) = Returned (r, pos, s')"
      "f' = f\<lparr>f_pos := pos\<rparr>"
    using assms(4) by (auto simp: dev_wr_def obind_Returned_iff)
  have "unat (of_nat (length bs) :: size_t) = length bs"
    using assms(3) by (intro unat_of_nat_size) (simp add: legal_write_def)
  then show "core_inv s'" using write_core_inv [OF assms(1,2) _ _ _ _ w(1)] assms(3)
    by (simp add: legal_write_def)
  show "private_data f'" using w(2) assms(2) by simp
qed

lemma dev_rd_frame:
  "dev_rd k s f n = Returned (r, f', data, s') \<Longrightarrow> s' = s \<or> s' = s\<lparr>lock := False\<rparr>"
  by (auto simp: dev_rd_def obind_Returned_iff dest!: read_frame)

text \<open>A read that returns bytes was neither interrupted nor short of a copy.\<close>

lemma read_willing:
  assumes "aesd_read k s f n pos = Returned (r, pos', xs, s')" "\<not> r \<le>s 0" "private_data f"
  shows "aesd_read (k\<lparr>copy_out := \<lambda>src. 0\<rparr>) s f n pos = Returned (r, pos', xs, s') \<and> \<not> interrupted k \<and> \<not> lock s"
proof -
  have neg: "- EINTR \<le>s (0 :: ssize_t)" "- EFAULT \<le>s (0 :: ssize_t)" by (simp_all add: errno_defs word_sle_eq)
  have k1: "\<not> interrupted k"
    using assms neg by (cases "interrupted k") (auto simp: aesd_read_def mutex_lock_interruptible_def)
  then have k2: "\<not> lock s"
    using assms(1) by (cases "lock s") (simp_all add: aesd_read_def mutex_lock_interruptible_def)
  note k = k1 k2
  let ?s1 = "s\<lparr>lock := True\<rparr>"
  show ?thesis
  proof (cases "aesd_circular_buffer_find_entry_offset_for_fpos (circular_buffer s) pos")
    case None
    then show ?thesis using assms k by (auto simp: aesd_read_def mutex_lock_interruptible_def)
  next
    case (Some io)
    obtain i d where io: "io = (i, d)" by (cases io)
    let ?e = "entry (circular_buffer s) ! i"
    let ?load = "load_bytes (heap s) (buffptr ?e) (unat d) (unat (min (bsize ?e - d) n))"
    obtain bs where bs: "?load = Inr bs"
      using assms(1) Some io k by (cases ?load) (auto simp: aesd_read_def mutex_lock_interruptible_def Let_def split: if_splits)
    have "\<not> copy_out k bs > 0"
      using assms Some io k bs neg by (cases "0 < copy_out k bs") (auto simp: aesd_read_def mutex_lock_interruptible_def Let_def)
    then show ?thesis
      using assms Some io k bs by (auto simp: aesd_read_def mutex_lock_interruptible_def Let_def)
  qed
qed

text \<open>Whatever the kernel answers, a read that returns bytes returns those at the position.\<close>

lemma dev_rd_bytes:
  assumes "core_inv s" "in_range s" "private_data f" "dev_rd k s f n = Returned (r, f', xs, s')" "\<not> r \<le>s 0"
  shows "s' = s" "private_data f'" "length xs = unat r"
    "xs = take (unat r) (drop (unat (f_pos f)) (log_bytes (abs_dev s)))"
    "unat (f_pos f') = unat (f_pos f) + unat r"
proof -
  obtain pos where rd: "aesd_read k s f (of_nat n) (f_pos f) = Returned (r, pos, xs, s')" "f' = f\<lparr>f_pos := pos\<rparr>"
    using assms(4) by (auto simp: dev_rd_def obind_Returned_iff)
  let ?k = "k\<lparr>copy_out := \<lambda>src. 0\<rparr>"
  have w: "aesd_read ?k s f (of_nat n) (f_pos f) = Returned (r, pos, xs, s')" "\<not> interrupted ?k" "\<not> lock s"
    using read_willing [OF rd(1) assms(5,3)] by simp_all
  have d: "dev_inv s" using assms(1) w(3) by (simp add: dev_inv_def)
  have ok: "pos = f_pos f + r" "s' = s" "length xs = unat r"
      "xs = take (unat r) (drop (unat (f_pos f)) (log_bytes (abs_dev s)))"
    using read_ok [OF d assms(2,3) w(2), of "of_nat n" "f_pos f"] w(1) by auto
  have "r \<noteq> 0" using assms(5) by auto
  then have "xs \<noteq> []" using ok(3) by (auto simp: unsigned_eq_0_iff)
  then have "unat (f_pos f) + unat r \<le> length (log_bytes (abs_dev s))"
    using ok(3,4) by (metis drop_eq_Nil length_drop length_take min.cobounded1 nat_le_linear take_Nil
        Nat.le_diff_conv2 add.commute)
  also have "\<dots> < 2 ^ 64" using dev_file.content_small [OF d assms(2)] by simp
  finally have "unat (f_pos f + r) = unat (f_pos f) + unat r" by (rule unat_add_size)
  then show "s' = s" "private_data f'" "length xs = unat r"
    "xs = take (unat r) (drop (unat (f_pos f)) (log_bytes (abs_dev s)))"
    "unat (f_pos f') = unat (f_pos f) + unat r"
    using ok rd(2) assms(3) by simp_all
qed

lemma dev_stdio_read_prefix:
  assumes "stdio_read dev_rd io s f n = Returned (data, s')" "core_inv s" "in_range s" "private_data f"
  shows "data = take (length data) (drop (unat (f_pos f)) (log_bytes (abs_dev s)))"
proof (rule stdio_read_prefix [where good = "\<lambda>s f. core_inv s \<and> in_range s \<and> private_data f"
      and content = "\<lambda>s. log_bytes (abs_dev s)", OF assms(1)])
  fix m k s f r f' xs s'
  assume "core_inv s \<and> in_range s \<and> private_data f" "dev_rd k s f m = Returned (r, f', xs, s')" "\<not> r \<le>s 0"
  with dev_rd_bytes [of s f k m r f' xs s']
  show "(core_inv s' \<and> in_range s' \<and> private_data f') \<and> log_bytes (abs_dev s') = log_bytes (abs_dev s) \<and>
      length xs = unat r \<and> xs = take (unat r) (drop (unat (f_pos f)) (log_bytes (abs_dev s))) \<and>
      unat (f_pos f') = unat (f_pos f) + unat r"
    by blast
qed (use assms in blast)

lemma dev_stdio_write_core_inv:
  assumes "stdio_write dev_wr io s f bs = Returned s'" "stdio_calls legal_write dev_wr io s f bs"
    and "core_inv s" "private_data f"
  shows "core_inv s'"
  using assms(1-4) by (rule stdio_write_keeps) (use dev_wr_core_inv in blast)

lemma dev_stdio_read_core_inv:
  "stdio_read dev_rd io s f n = Returned (data, s') \<Longrightarrow> core_inv s \<Longrightarrow> core_inv s'"
  by (erule stdio_read_keeps) (auto dest!: dev_rd_frame)

text \<open>A lost device lock stops every stream.\<close>

lemma locked_stdio_write:
  "lock s \<Longrightarrow> bs \<noteq> [] \<Longrightarrow> \<forall>(m, k) \<in> set io. \<not> interrupted k \<Longrightarrow> stdio_write dev_wr io s f bs = Blocked"
  by (cases io) (auto simp: dev_wr_def locked_blocks)

lemma locked_stdio_read:
  "lock s \<Longrightarrow> 0 < n \<Longrightarrow> \<forall>(m, k) \<in> set io. \<not> interrupted k \<Longrightarrow> stdio_read dev_rd io s f n = Blocked"
  by (cases io) (auto simp: dev_rd_def locked_blocks)

text \<open>A line goes to the log as a whole, however the stream cuts it.\<close>

lemma spec_write_pieces_of:
  "newline \<notin> set (butlast bs) \<Longrightarrow> foldl spec_write l (pieces_of ns bs) = (if bs = [] then l else spec_write l bs)"
  using spec_write_pieces [of "pieces_of ns bs" l] by (cases "bs = []") (simp_all add: pieces_of_nonempty)

lemma dev_stdio_write_line:
  assumes "dev_inv s" "private_data f" "stdio_calls (\<lambda>k s xs. good_call k s) dev_wr io s f bs"
    and "length bs \<le> length io" "length (pending (abs_dev s)) + length bs < 2 ^ 63"
    and "newline \<notin> set (butlast bs)"
  shows "\<exists>s'. stdio_write dev_wr io s f bs = Returned s' \<and> dev_inv s' \<and>
    abs_dev s' = (if bs = [] then abs_dev s else spec_write (abs_dev s) bs)"
  using dev_file.stdio_write_all [OF assms(1-5)] spec_write_pieces_of [OF assms(6)] by auto

text \<open>A stream that offers everything in one write makes one call.\<close>

lemma dev_stdio_calls_one:
  assumes "dev_inv s" "private_data f" "good_call k s" "bs \<noteq> []" "length bs \<le> m" "P k s bs"
    and "length (pending (abs_dev s)) + length bs < 2 ^ 63"
  shows "stdio_calls P dev_wr ((m, k) # io) s f bs"
proof -
  obtain f' s' where w: "dev_wr k s f bs = Returned (of_nat (length bs), f', s')"
    using dev_file.wr_ok [OF assms(1-4,7)] by blast
  have t: "take (max 1 m) bs = bs" using assms(5) by simp
  have "unat (of_nat (length bs) :: ssize_t) = length bs"
    using assms(7) by (intro unat_of_nat_size) simp
  moreover have "stdio_calls P dev_wr io s' f' []" by (induction io) auto
  ultimately show ?thesis using w t assms(6) by simp
qed

end
