(* ===== verification/Server_Connection.thy ===== *)
theory Server_Connection
  imports Server_Text Device_File
begin

text \<open>
  \<^verbatim>\<open>server/aesdsocket.c\<close>, one client: the thread \<^verbatim>\<open>handle_connection\<close> with the functions it calls,
  on the state all threads share. The file the server works on is the device of the driver
  (\<^verbatim>\<open>USE_AESD_CHAR_DEVICE\<close> is 1), reached through the streams of \<^theory_text>\<open>Stdio\<close>. Messages to the
  terminal and the system log are left out.
\<close>

unbundle bit_operations_syntax

section \<open>Shared state\<close>

text \<open>
  The client's address is left out: it is only printed, and handed to \<^verbatim>\<open>recvfrom\<close> and \<^verbatim>\<open>sendto\<close>,
  which do not use it on a connected stream.
\<close>

record ThreadInfo =
  thread_id :: nat
  client_socket :: nat
  thread_complete_flag :: bool

text \<open>
  \<^item> \<open>memory\<close>: the blocks of the program's own \<^verbatim>\<open>malloc\<close>, but for the \<open>ThreadInfo\<close>s, which are
    kept by address in \<open>infos\<close>; \<open>thread_list\<close> is the list that links them, head first;
  \<^item> \<open>sockets\<close>: the open client descriptors, each with the connection it stands for, so that a
    descriptor number that is used again can be told from the first one;
  \<^item> \<open>outbox\<close>: what has been sent, and on which connection.
\<close>

record server =
  device :: kstate
  memory :: heap
  file_mutex :: bool
  thread_list_mutex :: bool
  infos :: "nat \<rightharpoonup> ThreadInfo"
  thread_list :: "nat list"
  sockets :: "nat \<rightharpoonup> nat"
  outbox :: "(nat \<times> byte list) list"

text \<open>
  What the C library and the kernel answer within one critical section: whether \<^verbatim>\<open>fopen\<close>
  succeeds, what \<^verbatim>\<open>malloc\<close> returns, the system calls of the stream, the answers to the ioctl
  with the driver's stack at that call, and the answers to the two seeks of \<^verbatim>\<open>read_file\<close>.
\<close>

record libc_call =
  fopen_ok :: bool
  malloc_ret :: "(nat \<times> (nat \<Rightarrow> byte)) option"
  stream_io :: "(nat \<times> kernel_call) list"
  ioctl_call :: kernel_call
  ioctl_stack :: "byte list"
  seek_end_call :: kernel_call
  seek_set_call :: kernel_call

definition lock_file :: "server \<Rightarrow> server outcome" where
  "lock_file s = (if file_mutex s then Blocked else Returned (s\<lparr>file_mutex := True\<rparr>))"

definition unlock_file :: "server \<Rightarrow> server" where
  "unlock_file s = s\<lparr>file_mutex := False\<rparr>"

text \<open>\<^verbatim>\<open>close\<close> of a descriptor that is not open only answers \<^verbatim>\<open>EBADF\<close>.\<close>

definition close_fd :: "nat \<Rightarrow> server \<Rightarrow> server" where
  "close_fd fd s = s\<lparr>sockets := (sockets s)(fd := None)\<rparr>"

section \<open>Timestamps\<close>

text \<open>\<open>timestamp\<close> is the text \<^verbatim>\<open>strftime\<close> made. The timer thread is only started without the device.\<close>

definition add_timestamp_to_file :: "libc_call \<Rightarrow> byte list \<Rightarrow> server \<Rightarrow> server outcome" where
  "add_timestamp_to_file l timestamp s =
     obind (lock_file s) (\<lambda>s1.
       if \<not> fopen_ok l then Oops NullDeref
       else obind (stdio_write dev_wr (stream_io l) (device s1) opened (timestamp @ [newline])) (\<lambda>d.
         Returned (unlock_file (s1\<lparr>device := d\<rparr>))))"

text \<open>The turns the thread has made so far.\<close>

fun timer_thread_function :: "(libc_call \<times> byte list) list \<Rightarrow> server \<Rightarrow> server outcome" where
  "timer_thread_function [] s = Returned s"
| "timer_thread_function ((l, timestamp) # turns) s =
     obind (add_timestamp_to_file l timestamp s) (timer_thread_function turns)"

section \<open>Receiving\<close>

text \<open>The local variables of \<^verbatim>\<open>handle_connection\<close>; \<open>thread_stack\<close> is what they hold at the start.\<close>

record conn =
  conn_info :: nat
  conn_socket :: nat
  packet_buf :: "byte list"
  found_ioctl_cmd :: bool
  cmd_number :: uint32_t
  cmd_offset :: uint32_t
  reply_size :: loff_t

record thread_stack =
  stack_buf :: "byte list"
  stack_cmd :: uint32_t
  stack_offset :: uint32_t
  stack_fsize :: loff_t

definition search_string :: "byte list" where
  "search_string = text_bytes ''AESDCHAR_IOCSEEKTO:''"

definition connection_start :: "thread_stack \<Rightarrow> nat \<Rightarrow> server \<Rightarrow> conn outcome" where
  "connection_start st info s = (case infos s info of
     None \<Rightarrow> Oops UseAfterFree
   | Some i \<Rightarrow> Returned \<lparr>conn_info = info, conn_socket = client_socket i, packet_buf = stack_buf st,
       found_ioctl_cmd = False, cmd_number = stack_cmd st, cmd_offset = stack_offset st,
       reply_size = stack_fsize st\<rparr>)"

text \<open>Looking for the seek command in a packet.\<close>

definition scan_command :: "byte list \<Rightarrow> conn \<Rightarrow> conn" where
  "scan_command text c = (case strstr text search_string of
     None \<Rightarrow> c
   | Some result \<Rightarrow>
       let match_string = drop (length search_string) result;
           (a, b) = scan_pair match_string (cmd_number c) (cmd_offset c)
       in c\<lparr>found_ioctl_cmd := True, cmd_number := a, cmd_offset := b\<rparr>)"

text \<open>
  The body of the receiving loop, after \<^verbatim>\<open>recvfrom\<close> put \<open>nread\<close> bytes into the buffer: whether a
  newline was found, which ends the loop.
\<close>

definition process_packet :: "libc_call \<Rightarrow> server \<Rightarrow> conn \<Rightarrow> int \<Rightarrow> (bool \<times> conn \<times> server) outcome" where
  "process_packet l s c nread =
     obind (lock_file s) (\<lambda>s1.
       if \<not> nat nread < length (packet_buf c) then Oops OutOfBounds
       else let c1 = c\<lparr>packet_buf := (packet_buf c)[nat nread := 0]\<rparr>
         in obind (extract_data_up_to_newline (malloc_ret l) (memory s1) (packet_buf c1) nread)
              (\<lambda>(newString, new_line_found, h).
         ebind (c_string h newString) (\<lambda>text.
           let c2 = scan_command text c1
           in obind (if found_ioctl_cmd c2 then Returned (device s1)
                     else if \<not> fopen_ok l then Oops NullDeref
                     else stdio_write dev_wr (stream_io l) (device s1) opened text) (\<lambda>d.
              ebind (kfree h newString) (\<lambda>h1.
                Returned (new_line_found, c2, unlock_file (s1\<lparr>device := d, memory := h1\<rparr>)))))))"

text \<open>
  The receiving loop. A packet is what one \<^verbatim>\<open>recvfrom\<close> delivers, an empty one and the end of the
  list an answer of 0 or -1.
\<close>

definition recvfrom :: "byte list \<Rightarrow> conn \<Rightarrow> conn" where
  "recvfrom data c = c\<lparr>packet_buf := data @ drop (length data) (packet_buf c)\<rparr>"

fun receive_loop :: "(byte list \<times> libc_call) list \<Rightarrow> server \<Rightarrow> conn \<Rightarrow> (conn \<times> server) outcome" where
  "receive_loop [] s c = Returned (c, s)"
| "receive_loop ((data, l) # packets) s c =
     (if data = [] then Returned (c, s)
      else obind (process_packet l s (recvfrom data c) (int (length data))) (\<lambda>(new_line_found, c', s').
        if new_line_found then Returned (c', s') else receive_loop packets s' c'))"

section \<open>Reading the file back\<close>

definition encode_seekto :: "uint32_t \<Rightarrow> uint32_t \<Rightarrow> uint32_t" where
  "encode_seekto cmd off = push_bit 4 cmd OR off"

text \<open>
  The first half takes the mutex, opens the file and seeks; the position is that of a new file
  when there is no command. What the ioctl answers is only printed.
\<close>

definition open_and_seek ::
  "(nat \<Rightarrow> nat \<Rightarrow> nat \<Rightarrow> uint32_t) \<Rightarrow> libc_call \<Rightarrow> server \<Rightarrow> bool \<Rightarrow> uint32_t \<Rightarrow> uint32_t \<Rightarrow>
   (struct_file \<times> server) outcome" where
  "open_and_seek iowr l s found_cmd wcmd woffset =
     obind (lock_file s) (\<lambda>s1.
       if found_cmd then
         if \<not> fopen_ok l then Oops NullDeref
         else let seekto = \<lparr>write_cmd = encode_seekto wcmd woffset, write_cmd_offset = 0\<rparr>
           in obind (aesd_unlocked_ioctl iowr (ioctl_call l) (ioctl_stack l) (device s1) opened
                 (AESDCHAR_IOCSEEKTO iowr) (seekto_bytes seekto)) (\<lambda>(error, f, d).
                Returned (f, s1\<lparr>device := d\<rparr>))
       else Returned (opened, s1))"

text \<open>
  The second half reads and releases the mutex. The answer is the pointer, the size when it was
  set, and the state; without memory the file is closed but the mutex not released.
\<close>

definition read_contents :: "libc_call \<Rightarrow> server \<Rightarrow> struct_file \<Rightarrow> (ptr \<times> loff_t option \<times> server) outcome" where
  "read_contents l s f =
     (if \<not> fopen_ok l then Oops NullDeref
      else case malloc_ret l of
        None \<Rightarrow> Returned (NULL, None, s)
      | Some (a, junk) \<Rightarrow>
          obind (stdio_read dev_rd (stream_io l) (device s) f BUFFER_SIZE) (\<lambda>(data, d).
            let read_size = length data
            in ebind (store_bytes (fresh_block (memory s) a junk BUFFER_SIZE) (Some a) 0 data) (\<lambda>h1.
               ebind (store_bytes h1 (Some a) read_size [newline]) (\<lambda>h2.
               ebind (store_bytes h2 (Some a) read_size [0]) (\<lambda>h3.
                 Returned (Some a, Some (of_nat read_size),
                   unlock_file (s\<lparr>device := d, memory := h3\<rparr>)))))))"

definition read_char_device ::
  "(nat \<Rightarrow> nat \<Rightarrow> nat \<Rightarrow> uint32_t) \<Rightarrow> libc_call \<Rightarrow> server \<Rightarrow> bool \<Rightarrow> uint32_t \<Rightarrow> uint32_t \<Rightarrow>
   (ptr \<times> loff_t option \<times> server) outcome" where
  "read_char_device iowr l s found_cmd wcmd woffset =
     obind (open_and_seek iowr l s found_cmd wcmd woffset) (\<lambda>(f, s1). read_contents l s1 f)"

text \<open>
  The variant for a regular file, compiled but not called with the device. \<^verbatim>\<open>fseek\<close> moves the
  position with \<^verbatim>\<open>lseek\<close>, \<^verbatim>\<open>ftell\<close> answers it.
\<close>

definition fseek :: "kernel_call \<Rightarrow> kstate \<Rightarrow> struct_file \<Rightarrow> loff_t \<Rightarrow> cint \<Rightarrow> (struct_file \<times> kstate) outcome" where
  "fseek k d f off whence = obind (aesd_llseek k d f off whence) (\<lambda>(r, f', d'). Returned (f', d'))"

definition read_file :: "libc_call \<Rightarrow> server \<Rightarrow> (ptr \<times> loff_t option \<times> server) outcome" where
  "read_file l s =
     obind (lock_file s) (\<lambda>s1.
     if \<not> fopen_ok l then Oops NullDeref
     else obind (fseek (seek_end_call l) (device s1) opened 0 2) (\<lambda>(f1, d1).
       let file_size = f_pos f1
       in obind (fseek (seek_set_call l) d1 f1 0 0) (\<lambda>(f2, d2).
          case malloc_ret l of
            None \<Rightarrow> Returned (NULL, Some file_size, s1\<lparr>device := d2\<rparr>)
          | Some (a, junk) \<Rightarrow>
              obind (stdio_read dev_rd (stream_io l) d2 f2 (unat file_size)) (\<lambda>(data, d3).
                if length data \<noteq> unat file_size
                then Returned (NULL, Some file_size, s1\<lparr>device := d3\<rparr>)
                else ebind (store_bytes (fresh_block (memory s1) a junk (unat (file_size + 1))) (Some a) 0 data) (\<lambda>h1.
                     ebind (store_bytes h1 (Some a) (unat file_size) [0]) (\<lambda>h2.
                       Returned (Some a, Some file_size,
                         unlock_file (s1\<lparr>device := d3, memory := h2\<rparr>))))))))"

section \<open>Replying\<close>

text \<open>
  \<^verbatim>\<open>sendto\<close> answers \<open>ret\<close>: the bytes it took, or -1; always -1 on a descriptor that is not open.
  An answer other than the size closes the descriptor a first time.
\<close>

definition send_reply :: "int \<Rightarrow> server \<Rightarrow> conn \<Rightarrow> ptr \<Rightarrow> server outcome" where
  "send_reply ret s c to_send =
     ebind (if to_send = NULL then kfree (memory s) to_send else Inr (memory s)) (\<lambda>h.
     ebind (if to_send = NULL then Inr [] else load_bytes h to_send 0 (unat (reply_size c))) (\<lambda>data.
       let s1 = s\<lparr>memory := h\<rparr>;
           (r, s2) = (case sockets s1 (conn_socket c) of
               None \<Rightarrow> (- 1, s1)
             | Some k \<Rightarrow> (ret, if 0 < ret then s1\<lparr>outbox := outbox s1 @ [(k, take (nat ret) data)]\<rparr> else s1))
       in Returned (if r \<noteq> sint (reply_size c) then close_fd (conn_socket c) s2 else s2)))"

definition finish_connection :: "server \<Rightarrow> conn \<Rightarrow> ptr \<Rightarrow> server outcome" where
  "finish_connection s c to_send =
     ebind (kfree (memory s) to_send) (\<lambda>h.
       let s1 = close_fd (conn_socket c) (s\<lparr>memory := h\<rparr>)
       in case infos s1 (conn_info c) of
            None \<Rightarrow> Oops UseAfterFree
          | Some i \<Rightarrow> Returned (s1\<lparr>infos := (infos s1)(conn_info c \<mapsto> i\<lparr>thread_complete_flag := True\<rparr>)\<rparr>))"

text \<open>The answers a whole connection meets.\<close>

record client =
  packets :: "(byte list \<times> libc_call) list"
  reply_call :: libc_call
  send_ret :: int
  stack0 :: thread_stack

definition set_reply_size :: "loff_t option \<Rightarrow> conn \<Rightarrow> conn" where
  "set_reply_size n c = (case n of None \<Rightarrow> c | Some n \<Rightarrow> c\<lparr>reply_size := n\<rparr>)"

definition handle_connection ::
  "(nat \<Rightarrow> nat \<Rightarrow> nat \<Rightarrow> uint32_t) \<Rightarrow> client \<Rightarrow> nat \<Rightarrow> server \<Rightarrow> server outcome" where
  "handle_connection iowr e info s =
     obind (connection_start (stack0 e) info s) (\<lambda>c.
     obind (receive_loop (packets e) s c) (\<lambda>(c1, s1).
     obind (read_char_device iowr (reply_call e) s1 (found_ioctl_cmd c1) (cmd_number c1) (cmd_offset c1))
       (\<lambda>(to_send, fsize, s2).
       let c2 = set_reply_size fsize c1
       in obind (send_reply (send_ret e) s2 c2 to_send) (\<lambda>s3.
          finish_connection s3 c2 to_send))))"

end
