(* ===== verification/Server_Refinement.thy ===== *)
theory Server_Refinement
  imports Server_Connection
begin

text \<open>
  One connection against the log of the device: what receiving leaves in the log, what the
  reply holds, and the paths that fail.
\<close>

unbundle bit_operations_syntax

section \<open>Locking and sockets\<close>

lemma locked_file_blocks:
  assumes "file_mutex s"
  shows "process_packet l s c n = Blocked" "open_and_seek iowr l s b w d = Blocked"
    "read_char_device iowr l s b w d = Blocked"
    "read_file l s = Blocked" "add_timestamp_to_file l ts s = Blocked"
  using assms
  by (simp_all add: process_packet_def read_char_device_def open_and_seek_def read_file_def add_timestamp_to_file_def lock_file_def)

lemma unlock_lock [simp]: "\<not> file_mutex s \<Longrightarrow> s\<lparr>file_mutex := False\<rparr> = s"
  by simp

section \<open>One packet\<close>

lemma scan_command_keeps [simp]:
  "conn_info (scan_command t c) = conn_info c" "conn_socket (scan_command t c) = conn_socket c"
  "packet_buf (scan_command t c) = packet_buf c" "reply_size (scan_command t c) = reply_size c"
  by (simp_all add: scan_command_def split: option.split prod.split)

lemma scan_command_none: "strstr t search_string = None \<Longrightarrow> scan_command t c = c"
  by (simp add: scan_command_def)

text \<open>The text a packet contributes.\<close>

definition packet_text :: "byte list \<Rightarrow> byte list" where
  "packet_text data = until_zero (upto_newline data)"

lemma process_packet_eq:
  assumes m: "\<not> file_mutex s" and len: "0 < length data" "length data < length (packet_buf c)"
    and buf: "take (length data) (packet_buf c) = data"
    and mem: "malloc_ret l = Some (a, j)" "a \<notin> dom (memory s)"
  shows "process_packet l s c (int (length data)) =
    (let c2 = scan_command (packet_text data) (c\<lparr>packet_buf := (packet_buf c)[length data := 0]\<rparr>)
     in obind (if found_ioctl_cmd c2 then Returned (device s)
               else if \<not> fopen_ok l then Oops NullDeref
               else stdio_write dev_wr (stream_io l) (device s) opened (packet_text data)) (\<lambda>d.
          Returned (newline \<in> set data, c2, s\<lparr>device := d\<rparr>)))"
proof -
  let ?buf = "(packet_buf c)[length data := 0]"
  have ex: "extract_data_up_to_newline (malloc_ret l) (memory s) ?buf (int (length data)) =
      Returned (Some a, newline \<in> set data, (memory s)(a \<mapsto> upto_newline data @ [0]))"
    using len buf mem by (intro extract_result) simp_all
  have str: "c_string ((memory s)(a \<mapsto> upto_newline data @ [0])) (Some a) = Inr (packet_text data)"
    by (simp add: c_string_live packet_text_def)
  have free: "(memory s)(a := None) = memory s" using mem(2) by (auto simp: fun_eq_iff)
  show ?thesis
    using m len ex str free
    by (simp add: process_packet_def lock_file_def unlock_file_def Let_def)
qed

text \<open>
  What is asked of the library and the kernel for a packet to be stored, and for a whole
  connection to be received.
\<close>

definition packet_granted :: "libc_call \<Rightarrow> server \<Rightarrow> byte list \<Rightarrow> bool" where
  "packet_granted l s data \<longleftrightarrow> data \<noteq> [] \<and> length data < BUFFER_SIZE \<and> fopen_ok l \<and>
     (case malloc_ret l of None \<Rightarrow> False | Some (a, j) \<Rightarrow> a \<notin> dom (memory s)) \<and>
     length data \<le> length (stream_io l) \<and>
     stdio_calls (\<lambda>k d xs. good_call k d) dev_wr (stream_io l) (device s) opened (packet_text data)"

fun packets_granted :: "(byte list \<times> libc_call) list \<Rightarrow> server \<Rightarrow> conn \<Rightarrow> bool" where
  "packets_granted [] s c = True"
| "packets_granted ((data, l) # ps) s c =
     (packet_granted l s data \<and>
      (case process_packet l s (recvfrom data c) (int (length data)) of
         Returned (nl, c', s') \<Rightarrow> nl \<or> packets_granted ps s' c'
       | _ \<Rightarrow> True))"

text \<open>A packet of text without the seek command.\<close>

definition plain_packet :: "byte list \<Rightarrow> bool" where
  "plain_packet data \<longleftrightarrow> 0 \<notin> set data \<and> \<not> sublist search_string (upto_newline data)"

lemma set_upto_newline: "set (upto_newline xs) \<subseteq> set xs"
  by (induction xs) (auto simp: upto_newline_def)

lemma length_upto_newline: "length (upto_newline xs) \<le> length xs"
  by (induction xs) (auto simp: upto_newline_def)

lemma newline_butlast_upto: "newline \<notin> set (butlast (upto_newline xs))"
  by (induction xs) (auto simp: upto_newline_def)

lemma upto_newline_append:
  "newline \<in> set xs \<Longrightarrow> upto_newline (xs @ ys) = upto_newline xs"
  "newline \<notin> set xs \<Longrightarrow> upto_newline (xs @ ys) = xs @ upto_newline ys"
  by (induction xs) (auto simp: upto_newline_def)

lemma upto_newline_eq_Nil [simp]: "upto_newline xs = [] \<longleftrightarrow> xs = []"
  by (induction xs) (auto simp: upto_newline_def)

lemma plain_packet_text:
  "plain_packet data \<Longrightarrow> packet_text data = upto_newline data \<and> strstr (packet_text data) search_string = None"
proof -
  assume p: "plain_packet data"
  then have "0 \<notin> set (upto_newline data)" using set_upto_newline [of data] by (auto simp: plain_packet_def)
  then show ?thesis using p by (simp add: plain_packet_def packet_text_def until_zero_id strstr_None_iff)
qed

lemma process_plain_packet:
  assumes s: "dev_inv (device s)" "\<not> file_mutex s" and c: "length (packet_buf c) = BUFFER_SIZE"
    and f: "\<not> found_ioctl_cmd c" and g: "packet_granted l s data" and p: "plain_packet data"
    and room: "length (pending (abs_dev (device s))) + length data < 2 ^ 63"
  shows "\<exists>c' d. process_packet l s (recvfrom data c) (int (length data)) =
      Returned (newline \<in> set data, c', s\<lparr>device := d\<rparr>) \<and>
    dev_inv d \<and> abs_dev d = spec_write (abs_dev (device s)) (upto_newline data) \<and>
    c' = c\<lparr>packet_buf := packet_buf c'\<rparr> \<and> length (packet_buf c') = BUFFER_SIZE"
proof -
  let ?c = "recvfrom data c"
  obtain a j where mem: "malloc_ret l = Some (a, j)" "a \<notin> dom (memory s)"
    using g by (auto simp: packet_granted_def split: option.splits)
  have t: "packet_text data = upto_newline data" "strstr (packet_text data) search_string = None"
    using plain_packet_text [OF p] by auto
  obtain d where d: "stdio_write dev_wr (stream_io l) (device s) opened (packet_text data) = Returned d"
      "dev_inv d" "abs_dev d = spec_write (abs_dev (device s)) (packet_text data)"
    using dev_stdio_write_line [OF s(1) calm_simps(5), of "stream_io l" "packet_text data"]
      g t length_upto_newline [of data] newline_butlast_upto [of data] room
    by (auto simp: packet_granted_def)
  have "process_packet l s ?c (int (length data)) =
      Returned (newline \<in> set data, ?c\<lparr>packet_buf := (packet_buf ?c)[length data := 0]\<rparr>, s\<lparr>device := d\<rparr>)"
    using process_packet_eq [OF s(2) _ _ _ mem, of data ?c] g c d(1) t f
    by (simp add: packet_granted_def recvfrom_def scan_command_none)
  then show ?thesis using d t c g by (auto simp: recvfrom_def packet_granted_def)
qed

lemma spec_write_append:
  "newline \<notin> set p \<Longrightarrow> spec_write (spec_append l p) q = spec_write l (p @ q)"
  by (cases "q = []") (auto simp: spec_write_def spec_append_def dest: last_in_set)

lemma pending_append [simp]: "pending (spec_append l p) = pending l @ p"
  by (simp add: spec_append_def)

text \<open>However the bytes arrive in packets, the log gets them up to the first newline, once.\<close>

lemma receive_plain:
  assumes "dev_inv (device s)" "\<not> file_mutex s" "length (packet_buf c) = BUFFER_SIZE"
    and "\<not> found_ioctl_cmd c" "packets_granted ps s c" "\<forall>p \<in> set ps. plain_packet (fst p)"
    and "length (pending (abs_dev (device s))) + length (concat (map fst ps)) < 2 ^ 63"
  shows "\<exists>c' d. receive_loop ps s c = Returned (c', s\<lparr>device := d\<rparr>) \<and> dev_inv d \<and>
    abs_dev d = spec_write (abs_dev (device s)) (upto_newline (concat (map fst ps))) \<and>
    c' = c\<lparr>packet_buf := packet_buf c'\<rparr>"
  using assms
proof (induction ps arbitrary: s c)
  case Nil
  have "s\<lparr>device := device s\<rparr> = s" "c\<lparr>packet_buf := packet_buf c\<rparr> = c" by simp_all
  with Nil show ?case
    by (intro exI [of _ c] exI [of _ "device s"]) (simp add: spec_write_def spec_append_def)
next
  case (Cons p ps)
  obtain data l where p: "p = (data, l)" by (cases p)
  have g: "packet_granted l s data" using Cons.prems(5) p by simp
  then have ne: "data \<noteq> []" by (simp add: packet_granted_def)
  have pl: "plain_packet data" using Cons.prems(6) p by simp
  obtain c1 d1 where 1: "process_packet l s (recvfrom data c) (int (length data)) =
      Returned (newline \<in> set data, c1, s\<lparr>device := d1\<rparr>)" "dev_inv d1"
      "abs_dev d1 = spec_write (abs_dev (device s)) (upto_newline data)"
      "c1 = c\<lparr>packet_buf := packet_buf c1\<rparr>" "length (packet_buf c1) = BUFFER_SIZE"
    using process_plain_packet [OF Cons.prems(1-4) g pl] Cons.prems(7) p by auto
  show ?case
  proof (cases "newline \<in> set data")
    case True
    with 1 ne p show ?thesis by (auto simp: upto_newline_append)
  next
    case False
    have w: "abs_dev d1 = spec_append (abs_dev (device s)) data"
      using 1(3) False by (simp add: upto_newline_cases spec_write_no_newline)
    have f: "\<not> found_ioctl_cmd c1" using Cons.prems(4) 1(4) by (cases c; cases c1) simp
    let ?s1 = "s\<lparr>device := d1\<rparr>"
    have "\<exists>c' d. receive_loop ps ?s1 c1 = Returned (c', ?s1\<lparr>device := d\<rparr>) \<and> dev_inv d \<and>
        abs_dev d = spec_write (abs_dev (device ?s1)) (upto_newline (concat (map fst ps))) \<and>
        c' = c1\<lparr>packet_buf := packet_buf c'\<rparr>"
    proof (rule Cons.IH)
      show "packets_granted ps ?s1 c1" using Cons.prems(5) 1(1) False p by simp
      show "length (pending (abs_dev (device ?s1))) + length (concat (map fst ps)) < 2 ^ 63"
        using Cons.prems(7) w p by simp
    qed (use Cons.prems 1 f in simp_all)
    then obtain c' d where IH: "receive_loop ps ?s1 c1 = Returned (c', s\<lparr>device := d\<rparr>)"
        "dev_inv d" "abs_dev d = spec_write (abs_dev d1) (upto_newline (concat (map fst ps)))"
        "c' = c1\<lparr>packet_buf := packet_buf c'\<rparr>"
      by auto
    have "receive_loop (p # ps) s c = Returned (c', s\<lparr>device := d\<rparr>)"
      using p ne 1(1) False IH(1) by simp
    moreover have "abs_dev d = spec_write (abs_dev (device s)) (upto_newline (concat (map fst (p # ps))))"
      using IH(3) w False p by (simp add: upto_newline_append spec_write_append)
    moreover have "c' = c\<lparr>packet_buf := packet_buf c'\<rparr>"
      by (subst IH(4), subst 1(4)) simp
    ultimately show ?thesis using IH(2) by blast
  qed
qed

section \<open>Reading the log back\<close>

definition reply_block :: "byte list \<Rightarrow> (nat \<Rightarrow> byte) \<Rightarrow> byte list" where
  "reply_block data junk = data @ 0 # map junk [Suc (length data)..<BUFFER_SIZE]"

lemma store_reply:
  assumes "length data < BUFFER_SIZE"
  shows "store_bytes (fresh_block h a junk BUFFER_SIZE) (Some a) 0 data =
      Inr (h(a \<mapsto> data @ map junk [length data..<BUFFER_SIZE]))"
    and "store_bytes (h(a \<mapsto> data @ map junk [length data..<BUFFER_SIZE])) (Some a) (length data) [newline] =
      Inr (h(a \<mapsto> data @ newline # map junk [Suc (length data)..<BUFFER_SIZE]))"
    and "store_bytes (h(a \<mapsto> data @ newline # map junk [Suc (length data)..<BUFFER_SIZE])) (Some a) (length data) [0] =
      Inr (h(a \<mapsto> reply_block data junk))"
  using assms by (simp_all add: store_bytes_def fresh_block_def reply_block_def drop_map)

lemma store_reply_full:
  assumes "length data = BUFFER_SIZE"
  shows "store_bytes (fresh_block h a junk BUFFER_SIZE) (Some a) 0 data = Inr (h(a \<mapsto> data))"
    and "store_bytes (h(a \<mapsto> data)) (Some a) (length data) [newline] = Inl OutOfBounds"
  using assms by (simp_all add: store_bytes_def fresh_block_def)

text \<open>What is asked of the library and the kernel for the file to be read back.\<close>

definition read_granted :: "libc_call \<Rightarrow> server \<Rightarrow> nat \<Rightarrow> bool" where
  "read_granted l s n \<longleftrightarrow> fopen_ok l \<and>
     (case malloc_ret l of None \<Rightarrow> False | Some (a, j) \<Rightarrow> a \<notin> dom (memory s)) \<and>
     (\<forall>(m, k) \<in> set (stream_io l). good_read k \<and> m < 2 ^ 63) \<and> n < length (stream_io l)"

lemma read_granted_io:
  "read_granted l s n \<Longrightarrow> \<forall>(m, k) \<in> set (stream_io l). good_read k \<and> m < 2 ^ 63"
  "read_granted l s n \<Longrightarrow> n < length (stream_io l)"
  "read_granted l s n \<Longrightarrow> fopen_ok l"
  by (simp_all add: read_granted_def)

lemma read_grantedE:
  assumes "read_granted l s n"
  obtains a j where "malloc_ret l = Some (a, j)" "a \<notin> dom (memory s)"
  using assms by (auto simp: read_granted_def split: option.splits)

lemma open_plain:
  "\<not> file_mutex s \<Longrightarrow> open_and_seek iowr l s False wcmd woff = Returned (opened, s\<lparr>file_mutex := True\<rparr>)"
  by (simp add: open_and_seek_def lock_file_def)

lemma read_contents_ok:
  assumes d: "dev_inv (device s)" "in_range (device s)" "private_data f"
    and g: "read_granted l s (length (log_bytes (abs_dev (device s))))" and m: "malloc_ret l = Some (a, j)"
    and rest: "rest = drop (unat (f_pos f)) (log_bytes (abs_dev (device s)))"
  shows "length rest < BUFFER_SIZE \<Longrightarrow> read_contents l s f =
      Returned (Some a, Some (of_nat (length rest)),
        s\<lparr>memory := (memory s)(a \<mapsto> reply_block rest j), file_mutex := False\<rparr>)"
    and "BUFFER_SIZE \<le> length rest \<Longrightarrow> read_contents l s f = Oops OutOfBounds"
proof -
  have r: "stdio_read dev_rd (stream_io l) (device s) f BUFFER_SIZE = Returned (take BUFFER_SIZE rest, device s)"
    unfolding rest using d read_granted_io [OF g] by (intro dev_file.stdio_read_all) simp_all
  show "read_contents l s f = Returned (Some a, Some (of_nat (length rest)),
        s\<lparr>memory := (memory s)(a \<mapsto> reply_block rest j), file_mutex := False\<rparr>)"
    if "length rest < BUFFER_SIZE"
    using that r m read_granted_io(3) [OF g] store_reply [OF that]
    by (simp add: read_contents_def unlock_file_def)
  show "read_contents l s f = Oops OutOfBounds" if "BUFFER_SIZE \<le> length rest"
    using r m read_granted_io(3) [OF g] store_reply_full [of "take BUFFER_SIZE rest"] that
    by (simp add: read_contents_def)
qed

lemma read_contents_locked:
  assumes "lock (device s)" "fopen_ok l" "malloc_ret l \<noteq> None" "\<forall>(m, k) \<in> set (stream_io l). \<not> interrupted k"
  shows "read_contents l s f = Blocked"
  using assms locked_stdio_read [of "device s" BUFFER_SIZE "stream_io l" f]
  by (auto simp: read_contents_def BUFFER_SIZE_def)

section \<open>The seek command\<close>

lemma encode_nibbles:
  fixes c d :: uint32_t
  defines "b \<equiv> ucast (encode_seekto c d) :: byte"
  shows "ioctl_command b = (unat c OR unat d div 16) mod 16" "ioctl_offset b = unat d mod 16"
proof -
  have "drop_bit 4 (ucast b :: uint32_t) AND 0xF = take_bit 4 (c OR drop_bit 4 d)"
    unfolding and_0xF b_def encode_seekto_def by (rule bit_eqI) (auto simp: bit_simps)
  then have "ioctl_command b = unat (take_bit 4 (c OR drop_bit 4 d))"
    by (simp only: ioctl_command_def)
  also have "\<dots> = take_bit 4 (unat c OR drop_bit 4 (take_bit LENGTH(32) (unat d)))"
    by (simp only: unsigned_take_bit_eq unsigned_or_eq unsigned_drop_bit_eq)
  also have "take_bit LENGTH(32) (unat d) = unat d"
    using unsigned_less [of d, where ?'a = nat] by (simp add: take_bit_nat_eq_self)
  finally show "ioctl_command b = (unat c OR unat d div 16) mod 16"
    by (simp only: take_bit_eq_mod drop_bit_eq_div) simp
  have "(ucast b :: uint32_t) AND 0xF = take_bit 4 d"
    unfolding and_0xF b_def encode_seekto_def by (rule bit_eqI) (auto simp: bit_simps)
  then have "ioctl_offset b = take_bit 4 (unat d)"
    by (simp only: ioctl_offset_def unsigned_take_bit_eq)
  then show "ioctl_offset b = unat d mod 16"
    by (simp add: take_bit_eq_mod)
qed

lemma encode_small:
  assumes "c < 16" "d < 16"
  shows "ioctl_command (ucast (encode_seekto (of_nat c) (of_nat d))) = c"
    "ioctl_offset (ucast (encode_seekto (of_nat c) (of_nat d))) = d"
proof -
  have u: "unat (of_nat c :: uint32_t) = c" "unat (of_nat d :: uint32_t) = d"
    using assms by (simp_all add: unat_of_nat)
  show "ioctl_command (ucast (encode_seekto (of_nat c) (of_nat d))) = c"
    "ioctl_offset (ucast (encode_seekto (of_nat c) (of_nat d))) = d"
    using assms by (simp_all add: encode_nibbles u)
qed

definition ioctl_granted :: "libc_call \<Rightarrow> bool" where
  "ioctl_granted l \<longleftrightarrow> \<not> interrupted (ioctl_call l) \<and> ioctl_stack l \<noteq> [] \<and>
     (\<forall>b j. copy_in (ioctl_call l) [b] [j] = ([b], 0))"

lemma open_and_seek_result:
  assumes s: "\<not> file_mutex s" and d: "dev_inv (device s)" "in_range (device s)"
    and g: "ioctl_granted l" "fopen_ok l"
    and b: "b = (ucast (encode_seekto wcmd woff) :: byte)"
  shows "open_and_seek iowr l s True wcmd woff =
    (if ioctl_command b < 10
     then Returned (opened\<lparr>f_pos := of_nat (length (concat (take (ioctl_command b) (commands (abs_dev (device s))))) +
         ioctl_offset b)\<rparr>, s\<lparr>file_mutex := True\<rparr>)
     else Returned (opened, s\<lparr>file_mutex := True, device := (device s)\<lparr>lock := True\<rparr>\<rparr>))"
proof -
  obtain j js where st: "ioctl_stack l = j # js" using g by (cases "ioctl_stack l") (auto simp: ioctl_granted_def)
  obtain us where us: "seekto_bytes \<lparr>write_cmd = encode_seekto wcmd woff, write_cmd_offset = 0\<rparr> = b # us"
    by (simp add: seekto_bytes_def le32_bytes_def b)
  have "aesd_unlocked_ioctl iowr (ioctl_call l) (j # js) (device s) opened (AESDCHAR_IOCSEEKTO iowr) (b # us) =
    (if ioctl_command b < 10 then
       Returned (0, opened\<lparr>f_pos := of_nat (length (concat (take (ioctl_command b) (commands (abs_dev (device s))))) +
         ioctl_offset b)\<rparr>, device s)
     else Returned (- EINVAL, opened, (device s)\<lparr>lock := True\<rparr>))"
    using g by (intro ioctl_result [OF d]) (simp_all add: ioctl_granted_def)
  then show ?thesis using s g by (simp add: open_and_seek_def st us lock_file_def)
qed

section \<open>Sending the reply\<close>

lemma reply_sent:
  assumes "memory s = h(a \<mapsto> reply_block data j)" "a \<notin> dom h" "length data < BUFFER_SIZE"
    and "sockets s (conn_socket c) = Some k" "infos s (conn_info c) = Some i"
    and "reply_size c = of_nat (length data)"
  shows "obind (send_reply (int (length data)) s c (Some a)) (\<lambda>s. finish_connection s c (Some a)) =
    Returned (s\<lparr>memory := h, sockets := (sockets s)(conn_socket c := None),
      infos := (infos s)(conn_info c \<mapsto> i\<lparr>thread_complete_flag := True\<rparr>),
      outbox := outbox s @ (if data = [] then [] else [(k, data)])\<rparr>)"
proof -
  have l: "length data < 2 ^ 63" using assms(3) by (simp add: BUFFER_SIZE_def)
  then have u: "unat (reply_size c) = length data" using assms(6) by (simp add: unat_of_nat_size)
  with l have si: "sint (reply_size c) = int (length data)" by (simp add: sint_small)
  have load: "load_bytes (memory s) (Some a) 0 (length data) = Inr data"
    using assms(1,3) by (simp add: load_bytes_def reply_block_def)
  have free: "h(a := None) = h" using assms(2) by (auto simp: fun_eq_iff)
  show ?thesis
    using assms u si load free
    by (simp add: send_reply_def finish_connection_def close_fd_def Let_def)
qed

end
