(* ===== verification/Server_Replies.thy ===== *)
theory Server_Replies
  imports Server_Refinement
begin

text \<open>
  Whole connections: what a client that sends lines gets back, what a client that sends the
  seek command gets back, and how a single client can stop the server.
\<close>

unbundle bit_operations_syntax

lemma f_pos_upd: "f_pos (f\<lparr>f_pos := x\<rparr>) = x"
  by simp

section \<open>From the thread's start to its end\<close>

lemma connection_start_result:
  "infos s info = Some i \<Longrightarrow> connection_start st info s =
    Returned \<lparr>conn_info = info, conn_socket = client_socket i, packet_buf = stack_buf st,
       found_ioctl_cmd = False, cmd_number = stack_cmd st, cmd_offset = stack_offset st,
       reply_size = stack_fsize st\<rparr>"
  by (simp add: connection_start_def)

lemma set_reply_size_simps [simp]:
  "conn_info (set_reply_size n c) = conn_info c" "conn_socket (set_reply_size n c) = conn_socket c"
  "reply_size (set_reply_size (Some m) c) = m"
  by (simp_all add: set_reply_size_def split: option.split)

lemma read_granted_frame [simp]:
  "read_granted l (s\<lparr>device := d\<rparr>) n = read_granted l s n"
  "read_granted l (s\<lparr>file_mutex := b\<rparr>) n = read_granted l s n"
  by (simp_all add: read_granted_def split: option.split)

text \<open>The state a served client leaves.\<close>

definition served :: "server \<Rightarrow> kstate \<Rightarrow> nat \<Rightarrow> byte list \<Rightarrow> server" where
  "served s d info reply = (case infos s info of
     None \<Rightarrow> s
   | Some i \<Rightarrow> s\<lparr>device := d, sockets := (sockets s)(client_socket i := None),
       infos := (infos s)(info \<mapsto> i\<lparr>thread_complete_flag := True\<rparr>),
       outbox := outbox s @ (case sockets s (client_socket i) of
         None \<Rightarrow> [] | Some k \<Rightarrow> if reply = [] then [] else [(k, reply)])\<rparr>)"

lemma log_in_range:
  assumes "dev_inv d" "length (log_bytes (abs_dev d)) < BUFFER_SIZE"
  shows "in_range d"
  using assms length_log_bytes [of d] by (simp add: in_range_def dev_inv_def BUFFER_SIZE_def)

text \<open>The common end of all replies: the rest of the log from the position the file was put to.\<close>

lemma reply_result:
  assumes recv: "connection_start (stack0 e) info s = Returned c" "infos s info = Some i"
      "receive_loop (packets e) s c = Returned (c1, s\<lparr>device := d\<rparr>)"
      "conn_info c1 = info" "conn_socket c1 = client_socket i"
    and s: "\<not> file_mutex s" "sockets s (client_socket i) = Some k"
    and d: "dev_inv d" "length (log_bytes (abs_dev d)) < 2 ^ 31"
    and seek: "open_and_seek iowr (reply_call e) (s\<lparr>device := d\<rparr>) (found_ioctl_cmd c1) (cmd_number c1) (cmd_offset c1) =
        Returned (f, s\<lparr>device := d, file_mutex := True\<rparr>)" "private_data f"
    and g: "read_granted (reply_call e) s (length (log_bytes (abs_dev d)))"
    and rest: "rest = drop (unat (f_pos f)) (log_bytes (abs_dev d))" and sent: "send_ret e = int (length rest)"
  shows "length rest < BUFFER_SIZE \<Longrightarrow> handle_connection iowr e info s = Returned (served s d info rest)"
    and "BUFFER_SIZE \<le> length rest \<Longrightarrow> handle_connection iowr e info s = Oops OutOfBounds"
proof -
  let ?s1 = "s\<lparr>device := d, file_mutex := True\<rparr>"
  obtain a j where m: "malloc_ret (reply_call e) = Some (a, j)" "a \<notin> dom (memory s)"
    using g by (rule read_grantedE)
  have r: "in_range d" using d length_log_bytes [of d] by (simp add: in_range_def dev_inv_def)
  have g1: "read_granted (reply_call e) ?s1 (length (log_bytes (abs_dev (device ?s1))))" using g by simp
  have s1: "dev_inv (device ?s1)" "in_range (device ?s1)"
    "rest = drop (unat (f_pos f)) (log_bytes (abs_dev (device ?s1)))"
    using d r rest by simp_all
  note rc = read_contents_ok [OF s1(1,2) seek(2) g1 m(1) s1(3)]
  have split: "handle_connection iowr e info s =
      obind (read_contents (reply_call e) ?s1 f) (\<lambda>(to_send, fsize, s2).
        let c2 = set_reply_size fsize c1
        in obind (send_reply (send_ret e) s2 c2 to_send) (\<lambda>s3. finish_connection s3 c2 to_send))"
    using recv(1,3) seek by (simp add: handle_connection_def read_char_device_def)
  show "handle_connection iowr e info s = Oops OutOfBounds" if "BUFFER_SIZE \<le> length rest"
    using rc(2) that by (simp add: split)
  show "handle_connection iowr e info s = Returned (served s d info rest)" if len: "length rest < BUFFER_SIZE"
  proof -
    let ?s2 = "?s1\<lparr>memory := (memory s)(a \<mapsto> reply_block rest j), file_mutex := False\<rparr>"
    let ?c2 = "set_reply_size (Some (of_nat (length rest))) c1"
    have "obind (send_reply (int (length rest)) ?s2 ?c2 (Some a)) (\<lambda>s. finish_connection s ?c2 (Some a)) =
      Returned (?s2\<lparr>memory := memory s, sockets := (sockets ?s2)(conn_socket ?c2 := None),
        infos := (infos ?s2)(conn_info ?c2 \<mapsto> i\<lparr>thread_complete_flag := True\<rparr>),
        outbox := outbox ?s2 @ (if rest = [] then [] else [(k, rest)])\<rparr>)"
      using m len s recv by (intro reply_sent [where j = j]) simp_all
    then show ?thesis
      using rc(1) len sent recv s by (simp add: split served_def Let_def)
  qed
qed

section \<open>A client that sends a line\<close>

lemma handle_plain:
  assumes idle: "dev_inv (device s)" "\<not> file_mutex s"
    and info: "infos s info = Some i" "sockets s (client_socket i) = Some k"
    and st: "length (stack_buf (stack0 e)) = BUFFER_SIZE"
    and c: "connection_start (stack0 e) info s = Returned c"
    and ps: "packets_granted (packets e) s c" "\<forall>p \<in> set (packets e). plain_packet (fst p)"
    and len: "length (pending (abs_dev (device s))) + length (concat (map fst (packets e))) < 2 ^ 63"
    and log: "log' = spec_write (abs_dev (device s)) (upto_newline (concat (map fst (packets e))))"
      "length (log_bytes log') < BUFFER_SIZE"
    and g: "read_granted (reply_call e) s (length (log_bytes log'))"
    and sent: "send_ret e = int (length (log_bytes log'))"
  shows "\<exists>d. handle_connection iowr e info s = Returned (served s d info (log_bytes log')) \<and>
    dev_inv d \<and> abs_dev d = log'"
proof -
  have c': "length (packet_buf c) = BUFFER_SIZE" "\<not> found_ioctl_cmd c" "conn_info c = info"
      "conn_socket c = client_socket i"
    using c st connection_start_result [OF info(1)] by auto
  obtain c1 d where r: "receive_loop (packets e) s c = Returned (c1, s\<lparr>device := d\<rparr>)" "dev_inv d"
      "abs_dev d = log'" "c1 = c\<lparr>packet_buf := packet_buf c1\<rparr>"
    using receive_plain [OF idle c'(1,2) ps len] log(1) by blast
  have c1: "\<not> found_ioctl_cmd c1" "conn_info c1 = info" "conn_socket c1 = client_socket i"
    using r(4) c' by (metis conn.select_convs(1,2,4) conn.surjective conn.update_convs(3))+
  have o: "open_and_seek iowr (reply_call e) (s\<lparr>device := d\<rparr>) (found_ioctl_cmd c1) (cmd_number c1) (cmd_offset c1) =
      Returned (opened, s\<lparr>device := d, file_mutex := True\<rparr>)"
    using c1(1) idle(2) by (simp add: open_plain)
  have pos: "unat (f_pos opened) = 0" by (simp add: opened_def aesd_open_def)
  have "handle_connection iowr e info s = Returned (served s d info (log_bytes log'))"
    using r c1 o pos log(2) g sent idle info c
    by (intro reply_result(1) [where c = c and ?c1.0 = c1 and i = i and k = k and f = opened])
      (simp_all add: BUFFER_SIZE_def)
  with r show ?thesis by blast
qed

section \<open>A client that sends the seek command\<close>

definition seek_line :: "nat \<Rightarrow> nat \<Rightarrow> byte list" where
  "seek_line cmd off = search_string @ decimal cmd @ 44 # decimal off @ [newline]"

lemma decimal_no_newline: "newline \<notin> set (decimal n)" "0 \<notin> set (decimal n)"
  using decimal_digits [of n] by (auto simp: is_digit_def)

lemma search_string_no_newline: "newline \<notin> set search_string" "0 \<notin> set search_string"
  by (simp_all add: search_string_def text_bytes_def)

lemma seek_line_text: "packet_text (seek_line cmd off) = seek_line cmd off" "newline \<in> set (seek_line cmd off)"
proof -
  let ?xs = "search_string @ decimal cmd @ 44 # decimal off"
  have n: "newline \<notin> set ?xs" "0 \<notin> set ?xs"
    using decimal_no_newline search_string_no_newline by auto
  have l: "seek_line cmd off = ?xs @ [newline]" by (simp add: seek_line_def)
  have "upto_newline [newline] = [newline]" by (simp add: upto_newline_def)
  then have "upto_newline (?xs @ [newline]) = ?xs @ [newline]"
    using upto_newline_append(2) [OF n(1), of "[newline]"] by (simp only:)
  then show "packet_text (seek_line cmd off) = seek_line cmd off"
    using n(2) by (simp only: packet_text_def l) (rule until_zero_id, simp)
  show "newline \<in> set (seek_line cmd off)" by (simp add: seek_line_def)
qed

lemma scan_seek_line:
  assumes "cmd < 2 ^ 32" "off < 2 ^ 32"
  shows "scan_command (seek_line cmd off) c =
    c\<lparr>found_ioctl_cmd := True, cmd_number := of_nat cmd, cmd_offset := of_nat off\<rparr>"
proof -
  have "\<not> is_digit newline" by (simp add: is_digit_def)
  then have "scan_pair (decimal cmd @ 44 # decimal off @ [newline]) a b = (of_nat cmd, of_nat off)" for a b
    using assms by (intro scan_pair_decimal) simp_all
  then show ?thesis
    using strstr_prefix [of search_string "decimal cmd @ 44 # decimal off @ [newline]"]
    by (simp add: scan_command_def seek_line_def)
qed

text \<open>The command itself is not stored.\<close>

lemma receive_seek:
  assumes s: "\<not> file_mutex s" and c: "length (packet_buf c) = BUFFER_SIZE"
    and n: "cmd < 2 ^ 32" "off < 2 ^ 32"
    and mem: "malloc_ret l = Some (a, j)" "a \<notin> dom (memory s)"
    and len: "length (seek_line cmd off) < BUFFER_SIZE"
  shows "\<exists>c1. receive_loop ((seek_line cmd off, l) # later) s c = Returned (c1, s) \<and>
    found_ioctl_cmd c1 \<and> cmd_number c1 = of_nat cmd \<and> cmd_offset c1 = of_nat off \<and>
    conn_info c1 = conn_info c \<and> conn_socket c1 = conn_socket c"
proof -
  let ?data = "seek_line cmd off"
  have ne: "?data \<noteq> []" using seek_line_text(2) [of cmd off] by auto
  let ?c = "recvfrom ?data c"
  have "process_packet l s ?c (int (length ?data)) =
      Returned (True, (?c\<lparr>packet_buf := (packet_buf ?c)[length ?data := 0]\<rparr>)
        \<lparr>found_ioctl_cmd := True, cmd_number := of_nat cmd, cmd_offset := of_nat off\<rparr>, s)"
    using process_packet_eq [OF s _ _ _ mem, of ?data ?c] ne len c seek_line_text [of cmd off]
      scan_seek_line [OF n] by (simp add: recvfrom_def Let_def)
  with ne show ?thesis by (simp add: recvfrom_def)
qed

lemma length_seek_line:
  assumes "cmd < 100" "off < 100"
  shows "length (seek_line cmd off) < BUFFER_SIZE"
proof -
  have "length (decimal n) \<le> 2" if "n < 100" for n
  proof (cases "n < 10")
    case False
    moreover have "n div 10 < 10" using that by simp
    ultimately show ?thesis by (simp add: decimal_big decimal_small)
  qed (simp add: decimal_small)
  from this [OF assms(1)] this [OF assms(2)] show ?thesis
    by (simp add: seek_line_def search_string_def text_bytes_def BUFFER_SIZE_def)
qed

lemma handle_seek:
  assumes idle: "dev_inv (device s)" "\<not> file_mutex s" "length (log_bytes (abs_dev (device s))) < BUFFER_SIZE"
    and info: "infos s info = Some i" "sockets s (client_socket i) = Some k"
    and st: "length (stack_buf (stack0 e)) = BUFFER_SIZE"
    and n: "cmd < 10" "off < 16"
    and ps: "packets e = [(seek_line cmd off, l)]" "malloc_ret l = Some (a, j)" "a \<notin> dom (memory s)"
    and g: "read_granted (reply_call e) s (length (log_bytes (abs_dev (device s))))" "ioctl_granted (reply_call e)"
    and rest: "rest = drop (length (concat (take cmd (commands (abs_dev (device s))))) + off)
      (log_bytes (abs_dev (device s)))"
    and sent: "send_ret e = int (length rest)"
  shows "handle_connection iowr e info s = Returned (served s (device s) info rest)"
proof -
  obtain c where c: "connection_start (stack0 e) info s = Returned c" "length (packet_buf c) = BUFFER_SIZE"
      "conn_info c = info" "conn_socket c = client_socket i"
    using st connection_start_result [OF info(1)] by auto
  have len: "length (seek_line cmd off) < BUFFER_SIZE" using n by (intro length_seek_line) simp_all
  have n': "cmd < 2 ^ 32" "off < 2 ^ 32" using n by simp_all
  obtain c1 where r: "receive_loop (packets e) s c = Returned (c1, s)" "found_ioctl_cmd c1"
      "cmd_number c1 = of_nat cmd" "cmd_offset c1 = of_nat off" "conn_info c1 = info" "conn_socket c1 = client_socket i"
    using receive_seek [OF idle(2) c(2) n' ps(2,3) len, of "[]"] ps(1) c(3,4) by auto
  let ?d = "device s"
  let ?p = "length (concat (take cmd (commands (abs_dev ?d)))) + off"
  have ir: "in_range ?d" using idle(1,3) by (rule log_in_range)
  have code: "ioctl_command (ucast (encode_seekto (of_nat cmd) (of_nat off))) = cmd"
      "ioctl_offset (ucast (encode_seekto (of_nat cmd) (of_nat off))) = off"
    using n by (intro encode_small; simp)+
  let ?f = "opened\<lparr>f_pos := of_nat ?p\<rparr>"
  have o: "open_and_seek iowr (reply_call e) (s\<lparr>device := ?d\<rparr>) (found_ioctl_cmd c1) (cmd_number c1) (cmd_offset c1) =
      Returned (?f, s\<lparr>device := ?d, file_mutex := True\<rparr>)"
    using open_and_seek_result [OF idle(2,1) ir g(2) read_granted_io(3) [OF g(1)] refl] r(2-4) n(1)
    by (simp add: code)
  have "length (concat (take cmd (commands (abs_dev ?d)))) \<le> length (log_bytes (abs_dev ?d))"
    unfolding log_bytes_def by (metis append_take_drop_id concat_append length_append le_add1)
  then have "?p < 2 ^ 64" using idle(3) n by (simp add: BUFFER_SIZE_def)
  then have "unat (of_nat ?p :: loff_t) = ?p" by (rule unat_of_nat_size)
  then have pos: "unat (f_pos ?f) = ?p" by (simp only: f_pos_upd)
  have "length rest \<le> length (log_bytes (abs_dev ?d))" by (simp add: rest)
  then have lr: "length rest < BUFFER_SIZE" using idle(3) by simp
  have lg: "length (log_bytes (abs_dev ?d)) < 2 ^ 31" using idle(3) by (simp add: BUFFER_SIZE_def)
  have s': "s\<lparr>device := ?d\<rparr> = s" by simp
  show ?thesis
  proof (rule reply_result(1) [OF c(1) info(1) _ r(5,6) idle(2) info(2) idle(1) lg o _ g(1) _ sent lr])
    show "receive_loop (packets e) s c = Returned (c1, s\<lparr>device := ?d\<rparr>)" using r(1) by simp
    show "private_data ?f" by simp
    show "rest = drop (unat (f_pos ?f)) (log_bytes (abs_dev ?d))" by (simp only: rest pos)
  qed
qed

end
