(* ===== verification/Server_Failures.thy ===== *)
theory Server_Failures
  imports Server_Replies
begin

text \<open>
  The other paths of a connection: what the critical sections do whatever the kernel answers,
  what a failed \<^verbatim>\<open>malloc\<close> or \<^verbatim>\<open>fopen\<close> leads to, the two buffers that are one byte short, and
  the functions compiled for a regular file.
\<close>

section \<open>Whatever the kernel answers\<close>

lemma stdio_write_safe:
  assumes "stdio_calls P wr io s f bs" "I s" "F f"
    and step: "\<And>k s f xs. I s \<Longrightarrow> F f \<Longrightarrow> xs \<noteq> [] \<Longrightarrow> P k s xs \<Longrightarrow>
      \<exists>r f' s'. wr k s f xs = Returned (r, f', s') \<and> I s' \<and> F f'"
  shows "stdio_write wr io s f bs = Blocked \<or> (\<exists>s'. stdio_write wr io s f bs = Returned s' \<and> I s')"
  using assms(1-3)
proof (induction io arbitrary: s f bs)
  case (Cons mk io)
  obtain m k where mk: "mk = (m, k)" by (cases mk)
  show ?case
  proof (cases "bs = []")
    case False
    then have "P k s (take (max 1 m) bs)" "take (max 1 m) bs \<noteq> []"
      using Cons.prems(1) mk by simp_all
    then obtain r f1 s1 where "wr k s f (take (max 1 m) bs) = Returned (r, f1, s1)" "I s1" "F f1"
      using step [OF Cons.prems(2,3)] by blast
    with Cons.IH [of s1 f1 "drop (unat r) bs"] Cons.prems(1) False mk show ?thesis by auto
  qed (use Cons mk in simp)
qed simp

lemma dev_wr_safe:
  assumes "dev_inv s" "private_data f" "bs \<noteq> []" "legal_write k s bs"
  shows "\<exists>r f' s'. dev_wr k s f bs = Returned (r, f', s') \<and> dev_inv s' \<and> private_data f'"
proof -
  have u: "unat (of_nat (length bs) :: size_t) = length bs"
    using assms(4) by (intro unat_of_nat_size) (simp add: legal_write_def)
  then have "(of_nat (length bs) :: size_t) \<noteq> 0" using assms(3) by force
  then show ?thesis
    using write_safe [OF assms(1,2) _ _ u [symmetric], of k "f_pos f"] assms u
    by (auto simp: dev_wr_def legal_write_def)
qed

lemma dev_stdio_write_safe:
  assumes "stdio_calls legal_write dev_wr io s f bs" "dev_inv s" "private_data f"
  shows "stdio_write dev_wr io s f bs = Blocked \<or>
    (\<exists>s'. stdio_write dev_wr io s f bs = Returned s' \<and> dev_inv s')"
  by (rule stdio_write_safe [OF assms(1), where F = private_data]) (use assms dev_wr_safe in blast)+

lemma process_packet_safe:
  assumes s: "dev_inv (device s)" "\<not> file_mutex s"
    and c: "length (packet_buf c) = BUFFER_SIZE" and data: "data \<noteq> []" "length data < BUFFER_SIZE"
    and l: "fopen_ok l" "malloc_ret l = Some (a, j)" "a \<notin> dom (memory s)"
      "stdio_calls legal_write dev_wr (stream_io l) (device s) opened (packet_text data)"
  shows "process_packet l s (recvfrom data c) (int (length data)) = Blocked \<or>
    (\<exists>nl c' d. process_packet l s (recvfrom data c) (int (length data)) = Returned (nl, c', s\<lparr>device := d\<rparr>) \<and>
      dev_inv d \<and> length (packet_buf c') = BUFFER_SIZE)"
proof -
  let ?c = "recvfrom data c"
  have eq: "process_packet l s ?c (int (length data)) =
    (let c2 = scan_command (packet_text data) (?c\<lparr>packet_buf := (packet_buf ?c)[length data := 0]\<rparr>)
     in obind (if found_ioctl_cmd c2 then Returned (device s)
               else stdio_write dev_wr (stream_io l) (device s) opened (packet_text data)) (\<lambda>d.
          Returned (newline \<in> set data, c2, s\<lparr>device := d\<rparr>)))"
    using process_packet_eq [OF s(2) _ _ _ l(2,3), of data ?c] c data l(1) by (simp add: recvfrom_def)
  have "length (packet_buf ?c) = BUFFER_SIZE" using c data by (simp add: recvfrom_def)
  moreover have "s = s\<lparr>device := device s\<rparr>" by simp
  then have "\<exists>d. s = s\<lparr>device := d\<rparr> \<and> dev_inv d" using s(1) by metis
  ultimately show ?thesis
    using dev_stdio_write_safe [OF l(4) s(1) calm_simps(5)] by (auto simp: eq Let_def)
qed

section \<open>One byte short\<close>

text \<open>A packet that fills the receive buffer is terminated behind its end.\<close>

lemma full_packet_faults:
  assumes "\<not> file_mutex s" "length (packet_buf c) = BUFFER_SIZE" "length data = BUFFER_SIZE"
  shows "process_packet l s (recvfrom data c) (int (length data)) = Oops OutOfBounds"
  using assms by (simp add: process_packet_def lock_file_def recvfrom_def)

lemma full_reply_faults:
  assumes "dev_inv (device s)" "in_range (device s)" "\<not> file_mutex s"
    and "read_granted l s (length (log_bytes (abs_dev (device s))))"
    and "BUFFER_SIZE \<le> length (log_bytes (abs_dev (device s)))"
  shows "read_char_device iowr l s False wcmd woff = Oops OutOfBounds"
proof -
  obtain a j where m: "malloc_ret l = Some (a, j)" using assms(4) by (rule read_grantedE)
  let ?s1 = "s\<lparr>file_mutex := True\<rparr>"
  have "read_contents l ?s1 opened = Oops OutOfBounds"
    using assms m by (intro read_contents_ok(2) [where a = a and j = j, OF _ _ _ _ _ refl])
      (simp_all add: opened_def aesd_open_def)
  then show ?thesis using assms(3) by (simp add: read_char_device_def open_plain)
qed

section \<open>Without memory\<close>

text \<open>A packet for which there is no memory is searched through \<open>NULL\<close>.\<close>

lemma packet_no_memory:
  assumes "\<not> file_mutex s" "length (packet_buf c) = BUFFER_SIZE" "data \<noteq> []" "length data < BUFFER_SIZE"
    and "malloc_ret l = None"
  shows "process_packet l s (recvfrom data c) (int (length data)) = Oops NullDeref"
proof -
  let ?buf = "(packet_buf (recvfrom data c))[length data := 0]"
  have "length data \<le> length ?buf" using assms by (simp add: recvfrom_def)
  from extract_no_memory [OF this] obtain nl where
    "extract_data_up_to_newline None (memory s) ?buf (int (length data)) = Returned (NULL, nl, memory s)" by blast
  then show ?thesis
    using assms by (simp add: process_packet_def lock_file_def recvfrom_def c_string_def)
qed

text \<open>A reply for which there is none keeps the mutex.\<close>

lemma reply_no_memory:
  assumes "\<not> file_mutex s" "fopen_ok l" "malloc_ret l = None"
  shows "read_char_device iowr l s False wcmd woff = Returned (NULL, None, s\<lparr>file_mutex := True\<rparr>)"
  using assms by (simp add: read_char_device_def open_plain read_contents_def)

lemma receive_locked:
  assumes "file_mutex s"
  shows "receive_loop ps s c = (case ps of [] \<Rightarrow> Returned (c, s)
    | (data, l) # _ \<Rightarrow> if data = [] then Returned (c, s) else Blocked)"
  using locked_file_blocks(1) [OF assms] by (cases ps) auto

lemma handle_locked:
  assumes "file_mutex s" "infos s info \<noteq> None"
  shows "handle_connection iowr e info s = Blocked"
proof -
  obtain c where c: "connection_start (stack0 e) info s = Returned c"
    using assms(2) by (auto simp: connection_start_def)
  show ?thesis
  proof (cases "receive_loop (packets e) s c")
    case (Returned r)
    then have "snd r = s"
      using receive_locked [OF assms(1), of "packets e" c] by (auto split: list.splits if_splits)
    then show ?thesis
      using Returned c locked_file_blocks(3) [OF assms(1)]
      by (cases r) (simp add: handle_connection_def)
  next
    case Blocked
    then show ?thesis using c by (simp add: handle_connection_def)
  next
    case (Oops x)
    then show ?thesis
      using receive_locked [OF assms(1), of "packets e" c] by (auto split: list.splits if_splits)
  qed
qed

text \<open>The thread without memory ends by itself, but nobody after it does.\<close>

lemma handle_no_memory:
  assumes s: "\<not> file_mutex s" "infos s info = Some i"
    and e: "packets e = []" "fopen_ok (reply_call e)" "malloc_ret (reply_call e) = None"
  shows "\<exists>s'. handle_connection iowr e info s = Returned s' \<and> file_mutex s' \<and> memory s' = memory s \<and> device s' = device s"
proof -
  obtain c where c: "connection_start (stack0 e) info s = Returned c" "\<not> found_ioctl_cmd c" "conn_info c = info"
    using connection_start_result [OF s(2)] by auto
  note r = reply_no_memory [OF s(1) e(2,3)]
  show ?thesis
    using c r s e(1)
    by (auto simp: handle_connection_def send_reply_def finish_connection_def close_fd_def set_reply_size_def
        Let_def split: option.split)
qed

section \<open>The functions for a regular file\<close>

lemma fseek_result:
  assumes "dev_inv d" "in_range d" "\<not> interrupted k" "llseek_ok k" "whence \<in> {0, 1, 2}"
  shows "fseek k d f off whence =
    (let len = length (log_bytes (abs_dev d));
         t = seek_target (sint (f_pos f)) (sint off) whence (int len)
     in Returned (if 0 \<le> t \<and> t \<le> int len then f\<lparr>f_pos := word_of_int t\<rparr> else f, d))"
  using llseek_ok_result [OF assms, of f off] by (simp add: fseek_def Let_def)

lemma read_file_ok:
  assumes s: "dev_inv (device s)" "in_range (device s)" "\<not> file_mutex s"
    and k: "\<not> interrupted (seek_end_call l)" "llseek_ok (seek_end_call l)"
      "\<not> interrupted (seek_set_call l)" "llseek_ok (seek_set_call l)"
    and log: "log' = log_bytes (abs_dev (device s))"
    and g: "read_granted l s (length log')" and m: "malloc_ret l = Some (a, j)"
  shows "read_file l s = Returned (Some a, Some (of_nat (length log')),
    s\<lparr>memory := (memory s)(a \<mapsto> log' @ [0])\<rparr>)"
proof -
  let ?d = "device s" and ?n = "length log'"
  let ?f1 = "opened\<lparr>f_pos := of_nat ?n\<rparr>"
  have "?n < 2 ^ 31" using s(1,2) length_log_bytes [of ?d] by (simp add: log in_range_def dev_inv_def)
  then have n: "unat (of_nat ?n :: loff_t) = ?n" "unat (of_nat ?n + 1 :: loff_t) = Suc ?n"
    using unat_add_size [of "of_nat ?n" 1] by (simp_all add: unat_of_nat_size)
  have 1: "fseek (seek_end_call l) ?d opened 0 2 = Returned (?f1, ?d)"
    using fseek_result [OF s(1,2) k(1,2), of 2 opened 0] by (simp add: seek_target_def log)
  have 2: "fseek (seek_set_call l) ?d ?f1 0 0 = Returned (?f1\<lparr>f_pos := 0\<rparr>, ?d)"
    using fseek_result [OF s(1,2) k(3,4), of 0 ?f1 0] by (simp add: seek_target_def)
  have 3: "stdio_read dev_rd (stream_io l) ?d (?f1\<lparr>f_pos := 0\<rparr>) ?n = Returned (log', ?d)"
    using dev_file.stdio_read_all [OF s(1,2), of "?f1\<lparr>f_pos := 0\<rparr>" "stream_io l" ?n] read_granted_io [OF g]
    by (simp add: log)
  have st: "store_bytes (fresh_block (memory s) a j (Suc ?n)) (Some a) 0 log' = Inr ((memory s)(a \<mapsto> log' @ [j ?n]))"
    "store_bytes ((memory s)(a \<mapsto> log' @ [j ?n])) (Some a) ?n [0] = Inr ((memory s)(a \<mapsto> log' @ [0]))"
    by (simp_all add: store_bytes_def fresh_block_def drop_map)
  show ?thesis
    using 1 2 3 st m s(3) read_granted_io(3) [OF g]
    by (simp add: read_file_def lock_file_def unlock_file_def n f_pos_upd)
qed

lemma read_file_no_memory:
  assumes s: "dev_inv (device s)" "in_range (device s)" "\<not> file_mutex s"
    and k: "\<not> interrupted (seek_end_call l)" "llseek_ok (seek_end_call l)"
      "\<not> interrupted (seek_set_call l)" "llseek_ok (seek_set_call l)"
    and l: "fopen_ok l" "malloc_ret l = None"
  shows "\<exists>n. read_file l s = Returned (NULL, Some n, s\<lparr>file_mutex := True\<rparr>)"
proof -
  have 1: "\<exists>f. fseek (seek_end_call l) (device s) opened 0 2 = Returned (f, device s)"
    using fseek_result [OF s(1,2) k(1,2), of 2 opened 0] by (simp add: Let_def)
  have 2: "\<exists>f'. fseek (seek_set_call l) (device s) f 0 0 = Returned (f', device s)" for f
    using fseek_result [OF s(1,2) k(3,4), of 0 f 0] by (simp add: Let_def)
  from 1 obtain f where f: "fseek (seek_end_call l) (device s) opened 0 2 = Returned (f, device s)" ..
  from 2 obtain f' where "fseek (seek_set_call l) (device s) f 0 0 = Returned (f', device s)" ..
  with f s(3) l show ?thesis by (simp add: read_file_def lock_file_def)
qed

text \<open>A timestamp is one more line.\<close>

lemma timestamp_line:
  assumes "dev_inv (device s)" "\<not> file_mutex s" "fopen_ok l" "newline \<notin> set ts"
    and "stdio_calls (\<lambda>k d xs. good_call k d) dev_wr (stream_io l) (device s) opened (ts @ [newline])"
    and "length (ts @ [newline]) \<le> length (stream_io l)"
    and "length (pending (abs_dev (device s))) + length (ts @ [newline]) < 2 ^ 63"
  shows "\<exists>d. add_timestamp_to_file l ts s = Returned (s\<lparr>device := d\<rparr>) \<and> dev_inv d \<and>
    abs_dev d = spec_write (abs_dev (device s)) (ts @ [newline])"
proof -
  have "newline \<notin> set (butlast (ts @ [newline]))" using assms(4) by simp
  then show ?thesis
    using dev_stdio_write_line [OF assms(1) calm_simps(5) assms(5-7)] assms(2,3)
    by (auto simp: add_timestamp_to_file_def lock_file_def unlock_file_def)
qed

section \<open>A seek command the driver refuses\<close>

lemma seek_wedges:
  assumes s: "dev_inv (device s)" "length (log_bytes (abs_dev (device s))) < BUFFER_SIZE" "\<not> file_mutex s"
    and n: "10 \<le> cmd" "cmd < 16" "off < 16" and l: "ioctl_granted l" "fopen_ok l"
  shows "open_and_seek iowr l s True (of_nat cmd) (of_nat off) =
    Returned (opened, s\<lparr>file_mutex := True, device := (device s)\<lparr>lock := True\<rparr>\<rparr>)"
proof -
  have "in_range (device s)" using s(1,2) by (rule log_in_range)
  from open_and_seek_result [OF s(3,1) this l refl] encode_small [OF n(2,3)] n(1)
  show ?thesis by simp
qed

text \<open>The client's own thread does not come back.\<close>

lemma handle_seek_blocks:
  assumes s: "dev_inv (device s)" "length (log_bytes (abs_dev (device s))) < BUFFER_SIZE" "\<not> file_mutex s"
    and n: "10 \<le> cmd" "cmd < 16" "off < 16"
    and info: "infos s info = Some i" and st: "length (stack_buf (stack0 e)) = BUFFER_SIZE"
    and ps: "packets e = [(seek_line cmd off, l)]" "malloc_ret l = Some (a, j)" "a \<notin> dom (memory s)"
    and r: "ioctl_granted (reply_call e)" "fopen_ok (reply_call e)" "malloc_ret (reply_call e) \<noteq> None"
      "\<forall>(m, k) \<in> set (stream_io (reply_call e)). \<not> interrupted k"
  shows "handle_connection iowr e info s = Blocked"
proof -
  obtain c where c: "connection_start (stack0 e) info s = Returned c" "length (packet_buf c) = BUFFER_SIZE"
    using st connection_start_result [OF info] by auto
  have len: "length (seek_line cmd off) < BUFFER_SIZE" using n by (intro length_seek_line) simp_all
  have n': "cmd < 2 ^ 32" "off < 2 ^ 32" using n by simp_all
  obtain c1 where c1: "receive_loop (packets e) s c = Returned (c1, s)" "found_ioctl_cmd c1"
      "cmd_number c1 = of_nat cmd" "cmd_offset c1 = of_nat off"
    using receive_seek [OF s(3) c(2) n' ps(2,3) len, of "[]"] ps(1) by auto
  have "read_contents (reply_call e) (s\<lparr>file_mutex := True, device := (device s)\<lparr>lock := True\<rparr>\<rparr>) opened = Blocked"
    using r by (intro read_contents_locked) simp_all
  then show ?thesis
    using c(1) c1 seek_wedges [OF s n r(1,2), of iowr] by (simp add: handle_connection_def read_char_device_def)
qed

end
