(* ===== verification/Server_Main.thy ===== *)
theory Server_Main
  imports Server_Failures
begin

text \<open>
  \<^verbatim>\<open>server/aesdsocket.c\<close>, the process: signal handlers and start-up, the accepting loop of
  \<^verbatim>\<open>main\<close> and \<^verbatim>\<open>cleanup_threads\<close>, and the interleaving of all threads as a step relation.
\<close>

section \<open>Signals and start-up\<close>

text \<open>
  The listening side: the global \<open>server_socket\<close>, the sockets opened for listening and those
  bound to the port, and which handlers are installed.
\<close>

record listener =
  server_socket :: cint
  open_sockets :: "cint set"
  bound_sockets :: "cint set"
  sigterm_handled :: bool
  sigint_handled :: bool

definition close_listener :: "listener \<Rightarrow> listener" where
  "close_listener l = l\<lparr>open_sockets := open_sockets l - {server_socket l},
     bound_sockets := bound_sockets l - {server_socket l}\<rparr>"

text \<open>How a process ends: the status given to \<^verbatim>\<open>exit\<close>, or the value \<^verbatim>\<open>main\<close> returns.\<close>

datatype progress = Exits nat | Returns cint | Accepting

definition handle_sigterm :: "listener \<Rightarrow> progress \<times> listener" where
  "handle_sigterm l = (Exits 0, close_listener l)"

definition handle_sigint :: "listener \<Rightarrow> progress \<times> listener" where
  "handle_sigint l = (Exits 0, close_listener l)"

text \<open>
  The answers of the operating system during start-up. Two functions end without a \<^verbatim>\<open>return\<close>;
  the value their caller then sees is whatever was left in its place (\<open>register_junk\<close>,
  \<open>establish_junk\<close>).
\<close>

record addr_call =
  socket_ret :: cint
  setsockopt_ret :: cint
  bind_ret :: cint

record os_answers =
  sigterm_ret :: cint
  sigint_ret :: cint
  register_junk :: cint
  getaddrinfo_ret :: cint
  addresses :: "addr_call list"
  establish_junk :: cint
  fork_ret :: cint
  setsid_ret :: cint
  chdir_ret :: cint
  listen_ret :: cint

definition register_signal_handlers :: "os_answers \<Rightarrow> listener \<Rightarrow> cint \<times> listener" where
  "register_signal_handlers os l =
     (if sigterm_ret os = - 1 then (- 1, l)
      else let l1 = l\<lparr>sigterm_handled := True\<rparr>
        in if sigint_ret os = - 1 then (- 1, l1)
           else (register_junk os, l1\<lparr>sigint_handled := True\<rparr>))"

text \<open>The loop over the addresses; \<open>p\<close> is \<^verbatim>\<open>NULL\<close> at its end when none was bound.\<close>

datatype bind_result = Bound | No_address | Setsockopt_failed

fun bind_loop :: "addr_call list \<Rightarrow> listener \<Rightarrow> bind_result \<times> listener" where
  "bind_loop [] l = (No_address, l)"
| "bind_loop (p # ps) l =
     (let l1 = l\<lparr>server_socket := socket_ret p\<rparr>
      in if socket_ret p = - 1 then bind_loop ps l1
         else let l2 = l1\<lparr>open_sockets := insert (socket_ret p) (open_sockets l1)\<rparr>
           in if setsockopt_ret p = - 1 then (Setsockopt_failed, l2)
              else if bind_ret p = - 1 then bind_loop ps (close_listener l2)
              else (Bound, l2\<lparr>bound_sockets := insert (socket_ret p) (bound_sockets l2)\<rparr>))"

definition establish_socket_connection :: "os_answers \<Rightarrow> listener \<Rightarrow> cint \<times> listener" where
  "establish_socket_connection os l =
     (if getaddrinfo_ret os \<noteq> 0 then (- 1, l)
      else case bind_loop (addresses os) l of
        (Setsockopt_failed, l1) \<Rightarrow> (- 1, l1)
      | (No_address, l1) \<Rightarrow> (- 1, l1)
      | (Bound, l1) \<Rightarrow> (establish_junk os, l1))"

text \<open>\<open>Inl\<close>: the process exits with that status; one run follows either the parent or the child.\<close>

definition start_daemon_mode :: "os_answers \<Rightarrow> nat + cint" where
  "start_daemon_mode os =
     (let pid = fork_ret os
      in if pid = - 1 then Inr (- 1)
         else if pid \<noteq> 0 then Inl 0
         else if setsid_ret os = - 1 then Inr (- 1)
         else if chdir_ret os = - 1 then Inr (- 1)
         else Inr pid)"

definition main_startup :: "os_answers \<Rightarrow> listener \<Rightarrow> progress \<times> listener" where
  "main_startup os l =
     (let (registered, l1) = register_signal_handlers os l
      in if registered = - 1 then (Returns (- 1), l1)
         else let (_, l2) = establish_socket_connection os l1
           in if server_socket l2 = - 1 then (Returns (- 1), l2)
              else case start_daemon_mode os of
                Inl status \<Rightarrow> (Exits status, l2)
              | Inr pid \<Rightarrow>
                  if pid = - 1 then (Returns (- 1), l2)
                  else if listen_ret os = - 1 then (Returns (- 1), l2)
                  else (Accepting, l2))"

section \<open>The accepting loop\<close>

definition lock_list :: "server \<Rightarrow> server outcome" where
  "lock_list s = (if thread_list_mutex s then Blocked else Returned (s\<lparr>thread_list_mutex := True\<rparr>))"

definition unlock_list :: "server \<Rightarrow> server" where
  "unlock_list s = s\<lparr>thread_list_mutex := False\<rparr>"

text \<open>
  The answers to one turn: the descriptor \<^verbatim>\<open>accept\<close> returns with the connection it stands for,
  the block for the \<open>ThreadInfo\<close> with what it held, and the identifier of the new thread;
  \<open>None\<close> is a failure.
\<close>

record accept_call =
  accept_ret :: "(nat \<times> nat) option"
  info_malloc :: "(nat \<times> ThreadInfo) option"
  create_ret :: "nat option"

text \<open>
  The body of the loop up to the call of \<^verbatim>\<open>cleanup_threads\<close>, which the two failures skip: the
  block of the thread that was started, and whether the turn goes on to the cleanup. The result
  of \<^verbatim>\<open>pthread_create\<close> is not looked at.
\<close>

definition accept_turn :: "accept_call \<Rightarrow> server \<Rightarrow> (nat option \<times> bool \<times> server) outcome" where
  "accept_turn a s = (case accept_ret a of
     None \<Rightarrow> Returned (None, False, s)
   | Some (fd, k) \<Rightarrow>
       let s1 = s\<lparr>sockets := (sockets s)(fd \<mapsto> k)\<rparr>
       in case info_malloc a of
            None \<Rightarrow> Returned (None, False, close_fd fd s1)
          | Some (info, junk) \<Rightarrow>
              let i = junk\<lparr>client_socket := fd, thread_complete_flag := False\<rparr>;
                  i' = (case create_ret a of None \<Rightarrow> i | Some t \<Rightarrow> i\<lparr>thread_id := t\<rparr>);
                  s2 = s1\<lparr>infos := (infos s1)(info \<mapsto> i')\<rparr>
              in obind (lock_list s2) (\<lambda>s3.
                   Returned (map_option (\<lambda>t. info) (create_ret a), True,
                     unlock_list (s3\<lparr>thread_list := info # thread_list s3\<rparr>))))"

text \<open>
  The loop of \<^verbatim>\<open>cleanup_threads\<close> takes the successor of an element before it removes it, so it
  goes along the list as it was. \<^verbatim>\<open>pthread_join\<close> returns: the flag is the last thing a thread sets.
\<close>

fun reap_loop :: "nat list \<Rightarrow> server \<Rightarrow> server outcome" where
  "reap_loop [] s = Returned s"
| "reap_loop (info # next) s = (case infos s info of
     None \<Rightarrow> Oops UseAfterFree
   | Some i \<Rightarrow>
       if thread_complete_flag i
       then reap_loop next ((close_fd (client_socket i) s)
              \<lparr>thread_list := remove1 info (thread_list s), infos := (infos s)(info := None)\<rparr>)
       else reap_loop next s)"

definition cleanup_threads :: "server \<Rightarrow> server outcome" where
  "cleanup_threads s =
     obind (lock_list s) (\<lambda>s1. obind (reap_loop (thread_list s1) s1) (\<lambda>s2. Returned (unlock_list s2)))"

section \<open>All threads together\<close>

text \<open>Where a client's thread is; the pointer is the reply it holds.\<close>

datatype phase = Starting thread_stack | Receiving conn | Opening conn | Reading conn struct_file
  | Sending conn ptr | Closing conn ptr

record system =
  srv :: server
  running :: "nat \<rightharpoonup> phase"
  in_cleanup :: bool

definition move :: "system \<Rightarrow> nat \<Rightarrow> server \<Rightarrow> phase \<Rightarrow> system" where
  "move y t s ph = y\<lparr>srv := s, running := (running y)(t \<mapsto> ph)\<rparr>"

text \<open>What is known of the answers: new descriptors, blocks and copies are as documented.\<close>

definition accept_legal :: "accept_call \<Rightarrow> server \<Rightarrow> bool" where
  "accept_legal a s \<longleftrightarrow>
     (\<forall>fd k. accept_ret a = Some (fd, k) \<longrightarrow> fd \<notin> dom (sockets s)) \<and>
     (\<forall>p j. info_malloc a = Some (p, j) \<longrightarrow> p \<notin> dom (infos s))"

definition malloc_legal :: "libc_call \<Rightarrow> server \<Rightarrow> bool" where
  "malloc_legal l s \<longleftrightarrow> (\<forall>a j. malloc_ret l = Some (a, j) \<longrightarrow> a \<notin> dom (memory s))"

text \<open>
  What happens in a step. A packet carries the answers it met and whether its text goes to the
  file, which it does until its connection has seen the command.
\<close>

datatype event = Accept | Cleanup | Start nat | Packet nat libc_call "byte list" bool | End nat
  | Open nat | Read nat | Send nat | Finish nat

text \<open>
  Each critical section is one step, but for the two halves of \<^verbatim>\<open>read_char_device\<close>, between
  which the mutex stays taken. A call that blocks makes no step. (A new thread may run before
  \<open>accept_turn\<close> has put it on the list; it does not look at the list, so its steps can as well be
  taken after that.)
\<close>

inductive server_event ::
  "(nat \<Rightarrow> nat \<Rightarrow> nat \<Rightarrow> uint32_t) \<Rightarrow> system \<Rightarrow> event \<Rightarrow> system \<Rightarrow> bool" for iowr where
  accept_step: "\<not> in_cleanup y \<Longrightarrow> accept_legal a (srv y) \<Longrightarrow> length (stack_buf st) = BUFFER_SIZE \<Longrightarrow>
    accept_turn a (srv y) = Returned (started, to_cleanup, s) \<Longrightarrow>
    server_event iowr y Accept (y\<lparr>srv := s, in_cleanup := to_cleanup,
      running := (case started of None \<Rightarrow> running y | Some t \<Rightarrow> (running y)(t \<mapsto> Starting st))\<rparr>)"
| cleanup_step: "in_cleanup y \<Longrightarrow> cleanup_threads (srv y) = Returned s \<Longrightarrow>
    server_event iowr y Cleanup (y\<lparr>srv := s, in_cleanup := False\<rparr>)"
| start_step: "running y t = Some (Starting st) \<Longrightarrow> connection_start st t (srv y) = Returned c \<Longrightarrow>
    server_event iowr y (Start t) (move y t (srv y) (Receiving c))"
| packet_step: "running y t = Some (Receiving c) \<Longrightarrow> conn_socket c \<in> dom (sockets (srv y)) \<Longrightarrow>
    data \<noteq> [] \<Longrightarrow> length data \<le> BUFFER_SIZE \<Longrightarrow> malloc_legal l (srv y) \<Longrightarrow>
    stdio_calls legal_write dev_wr (stream_io l) (device (srv y)) opened (packet_text data) \<Longrightarrow>
    process_packet l (srv y) (recvfrom data c) (int (length data)) = Returned (nl, c', s) \<Longrightarrow>
    server_event iowr y (Packet t l data (\<not> found_ioctl_cmd c'))
      (move y t s (if nl then Opening c' else Receiving c'))"
| end_step: "running y t = Some (Receiving c) \<Longrightarrow>
    server_event iowr y (End t) (move y t (srv y) (Opening c))"
| open_step: "running y t = Some (Opening c) \<Longrightarrow>
    open_and_seek iowr l (srv y) (found_ioctl_cmd c) (cmd_number c) (cmd_offset c) = Returned (f, s) \<Longrightarrow>
    server_event iowr y (Open t) (move y t s (Reading c f))"
| read_step: "running y t = Some (Reading c f) \<Longrightarrow> malloc_legal l (srv y) \<Longrightarrow>
    read_contents l (srv y) f = Returned (p, n, s) \<Longrightarrow>
    server_event iowr y (Read t) (move y t s (Sending (set_reply_size n c) p))"
| send_step: "running y t = Some (Sending c p) \<Longrightarrow> send_reply r (srv y) c p = Returned s \<Longrightarrow>
    server_event iowr y (Send t) (move y t s (Closing c p))"
| finish_step: "running y t = Some (Closing c p) \<Longrightarrow> finish_connection (srv y) c p = Returned s \<Longrightarrow>
    server_event iowr y (Finish t) (y\<lparr>srv := s, running := (running y)(t := None)\<rparr>)"

definition server_step :: "(nat \<Rightarrow> nat \<Rightarrow> nat \<Rightarrow> uint32_t) \<Rightarrow> system \<Rightarrow> system \<Rightarrow> bool" where
  "server_step iowr y y' \<longleftrightarrow> (\<exists>e. server_event iowr y e y')"

text \<open>The server when it starts to accept, over a loaded device.\<close>

definition system_start :: "system \<Rightarrow> bool" where
  "system_start y \<longleftrightarrow> core_inv (device (srv y)) \<and> memory (srv y) = Map.empty \<and>
     \<not> file_mutex (srv y) \<and> \<not> thread_list_mutex (srv y) \<and>
     infos (srv y) = Map.empty \<and> thread_list (srv y) = [] \<and> sockets (srv y) = Map.empty \<and>
     running y = Map.empty \<and> \<not> in_cleanup y"

end
