(* ===== verification/Server_System.thy ===== *)
theory Server_System
  imports Server_Main
begin

text \<open>
  What holds in every state the server can get into, for any number of clients and any
  interleaving of their threads: the list holds exactly the live \<open>ThreadInfo\<close>s, a running thread
  owns its own, and the memory holds exactly the replies of the threads that are sending.
\<close>

section \<open>The invariant\<close>

fun phase_conn :: "phase \<Rightarrow> conn option" where
  "phase_conn (Starting st) = None"
| "phase_conn (Receiving c) = Some c"
| "phase_conn (Opening c) = Some c"
| "phase_conn (Reading c f) = Some c"
| "phase_conn (Sending c p) = Some c"
| "phase_conn (Closing c p) = Some c"

fun held :: "phase \<Rightarrow> ptr" where
  "held (Sending c p) = p"
| "held (Closing c p) = p"
| "held ph = NULL"

fun phase_buf_ok :: "phase \<Rightarrow> bool" where
  "phase_buf_ok (Starting st) = (length (stack_buf st) = BUFFER_SIZE)"
| "phase_buf_ok (Receiving c) = (length (packet_buf c) = BUFFER_SIZE)"
| "phase_buf_ok ph = True"

text \<open>A thread's \<open>ThreadInfo\<close> is live and not yet complete; the reply it sends is long enough.\<close>

definition thread_ok :: "(nat \<rightharpoonup> ThreadInfo) \<Rightarrow> heap \<Rightarrow> nat \<Rightarrow> phase \<Rightarrow> bool" where
  "thread_ok is h t ph \<longleftrightarrow>
     (\<exists>i. is t = Some i \<and> \<not> thread_complete_flag i \<and>
       (\<forall>c. phase_conn ph = Some c \<longrightarrow> conn_info c = t \<and> conn_socket c = client_socket i)) \<and>
     phase_buf_ok ph \<and>
     (\<forall>a. held ph = Some a \<longrightarrow> (\<exists>bs. h a = Some bs \<and>
       (\<forall>c. ph = Sending c (Some a) \<longrightarrow> unat (reply_size c) \<le> length bs)))"

definition system_inv :: "system \<Rightarrow> bool" where
  "system_inv y \<longleftrightarrow>
     core_inv (device (srv y)) \<and> \<not> thread_list_mutex (srv y) \<and>
     distinct (thread_list (srv y)) \<and> set (thread_list (srv y)) = dom (infos (srv y)) \<and>
     (\<forall>t ph. running y t = Some ph \<longrightarrow> thread_ok (infos (srv y)) (memory (srv y)) t ph) \<and>
     (\<forall>t t' ph ph' a. running y t = Some ph \<longrightarrow> running y t' = Some ph' \<longrightarrow>
       held ph = Some a \<longrightarrow> held ph' = Some a \<longrightarrow> t = t') \<and>
     (\<forall>a \<in> dom (memory (srv y)). \<exists>t ph. running y t = Some ph \<and> held ph = Some a)"

lemma system_invD:
  assumes "system_inv y"
  shows "core_inv (device (srv y))" "\<not> thread_list_mutex (srv y)"
    "distinct (thread_list (srv y))" "set (thread_list (srv y)) = dom (infos (srv y))"
    "\<And>t ph. running y t = Some ph \<Longrightarrow> thread_ok (infos (srv y)) (memory (srv y)) t ph"
    "\<And>t t' ph ph' a. running y t = Some ph \<Longrightarrow> running y t' = Some ph' \<Longrightarrow>
       held ph = Some a \<Longrightarrow> held ph' = Some a \<Longrightarrow> t = t'"
    "\<And>a. a \<in> dom (memory (srv y)) \<Longrightarrow> \<exists>t ph. running y t = Some ph \<and> held ph = Some a"
  using assms unfolding system_inv_def by blast+

lemma system_invI:
  assumes "core_inv (device (srv y))" "\<not> thread_list_mutex (srv y)"
    and "distinct (thread_list (srv y))" "set (thread_list (srv y)) = dom (infos (srv y))"
    and "\<And>t ph. running y t = Some ph \<Longrightarrow> thread_ok (infos (srv y)) (memory (srv y)) t ph"
    and "\<And>t t' ph ph' a. running y t = Some ph \<Longrightarrow> running y t' = Some ph' \<Longrightarrow>
       held ph = Some a \<Longrightarrow> held ph' = Some a \<Longrightarrow> t = t'"
    and "\<And>a. a \<in> dom (memory (srv y)) \<Longrightarrow> \<exists>t ph. running y t = Some ph \<and> held ph = Some a"
  shows "system_inv y"
  using assms unfolding system_inv_def by blast

section \<open>What a step leaves alone\<close>

definition same_threads :: "server \<Rightarrow> server \<Rightarrow> bool" where
  "same_threads s s' \<longleftrightarrow> infos s' = infos s \<and> thread_list s' = thread_list s \<and>
     thread_list_mutex s' = thread_list_mutex s"

lemma lock_file_Returned: "lock_file s = Returned s' \<longleftrightarrow> \<not> file_mutex s \<and> s' = s\<lparr>file_mutex := True\<rparr>"
  by (auto simp: lock_file_def)

lemma process_packet_frame:
  assumes ret: "process_packet l s (recvfrom data c) (int (length data)) = Returned (nl, c', s')"
    and data: "data \<noteq> []" "length data \<le> BUFFER_SIZE" "length (packet_buf c) = BUFFER_SIZE"
    and mem: "malloc_legal l s"
    and io: "stdio_calls legal_write dev_wr (stream_io l) (device s) opened (packet_text data)"
    and inv: "core_inv (device s)"
  shows "same_threads s s'" "memory s' = memory s" "core_inv (device s')"
    and "conn_info c' = conn_info c" "conn_socket c' = conn_socket c" "length (packet_buf c') = BUFFER_SIZE"
proof -
  let ?c = "recvfrom data c"
  have m: "\<not> file_mutex s" using ret locked_file_blocks(1) [of s] by fastforce
  have len: "length data < BUFFER_SIZE"
    using ret full_packet_faults [OF m data(3), of data l] data(2) by fastforce
  obtain a j where a: "malloc_ret l = Some (a, j)"
    using ret packet_no_memory [OF m data(3,1) len] by (cases "malloc_ret l") auto
  then have "a \<notin> dom (memory s)" using mem by (simp add: malloc_legal_def)
  note eq = process_packet_eq [OF m _ _ _ a this, of data ?c]
  have bl: "length (packet_buf ?c) = BUFFER_SIZE" using data by (simp add: recvfrom_def)
  let ?c2 = "scan_command (packet_text data) (?c\<lparr>packet_buf := (packet_buf ?c)[length data := 0]\<rparr>)"
  have eq': "obind (if found_ioctl_cmd ?c2 then Returned (device s)
               else if \<not> fopen_ok l then Oops NullDeref
               else stdio_write dev_wr (stream_io l) (device s) opened (packet_text data)) (\<lambda>d.
          Returned (newline \<in> set data, ?c2, s\<lparr>device := d\<rparr>)) = Returned (nl, c', s')"
    using ret eq bl data(1) len by (simp add: recvfrom_def)
  then obtain d where d: "(if found_ioctl_cmd ?c2 then Returned (device s)
               else if \<not> fopen_ok l then Oops NullDeref
               else stdio_write dev_wr (stream_io l) (device s) opened (packet_text data)) = Returned d"
      "c' = ?c2" "s' = s\<lparr>device := d\<rparr>"
    by (auto simp: obind_Returned_iff)
  have "core_inv d"
    using d(1) inv dev_stdio_write_core_inv [OF _ io inv] by (auto split: if_splits)
  then show "same_threads s s'" "memory s' = memory s" "core_inv (device s')"
    using d(3) by (simp_all add: same_threads_def)
  show "conn_info c' = conn_info c" "conn_socket c' = conn_socket c" "length (packet_buf c') = BUFFER_SIZE"
    using d(2) bl by (simp_all add: recvfrom_def)
qed

lemma open_and_seek_frame:
  assumes "open_and_seek iowr l s found w o' = Returned (f, s')" "core_inv (device s)"
  shows "same_threads s s'" "memory s' = memory s" "core_inv (device s')"
  using assms
  by (auto simp: open_and_seek_def obind_Returned_iff lock_file_Returned Let_def same_threads_def
      split: if_splits dest!: ioctl_frame)

lemma read_contents_cases:
  assumes "read_contents l s f = Returned (p, n, s')"
  obtains (no_memory) "malloc_ret l = None" "p = NULL" "n = None" "s' = s"
  | (read) a j data d where "malloc_ret l = Some (a, j)"
      "stdio_read dev_rd (stream_io l) (device s) f BUFFER_SIZE = Returned (data, d)" "length data < BUFFER_SIZE"
      "p = Some a" "n = Some (of_nat (length data))"
      "s' = s\<lparr>device := d, memory := (memory s)(a \<mapsto> reply_block data j), file_mutex := False\<rparr>"
proof (cases "malloc_ret l")
  case None
  then show ?thesis using assms no_memory by (auto simp: read_contents_def split: if_splits)
next
  case (Some aj)
  obtain a j where aj: "aj = (a, j)" by (cases aj)
  have o: "fopen_ok l" using assms by (auto simp: read_contents_def split: if_splits)
  obtain data d where d: "stdio_read dev_rd (stream_io l) (device s) f BUFFER_SIZE = Returned (data, d)"
    using assms Some aj o by (auto simp: read_contents_def obind_Returned_iff)
  have len: "length data < BUFFER_SIZE"
  proof (rule ccontr)
    assume "\<not> length data < BUFFER_SIZE"
    then consider "length data = BUFFER_SIZE" | "length data > BUFFER_SIZE" by linarith
    then show False
    proof cases
      case 1
      then show False using assms Some aj o d store_reply_full [OF 1] by (simp add: read_contents_def)
    next
      case 2
      then have "store_bytes (fresh_block (memory s) a j BUFFER_SIZE) (Some a) 0 data = Inl OutOfBounds"
        by (simp add: store_bytes_def fresh_block_def)
      then show False using assms Some aj o d by (simp add: read_contents_def)
    qed
  qed
  have "Returned (p, n, s') = Returned (Some a, Some (of_nat (length data)),
      s\<lparr>device := d, memory := (memory s)(a \<mapsto> reply_block data j), file_mutex := False\<rparr>)"
    using assms Some aj o d store_reply [OF len] by (simp add: read_contents_def unlock_file_def)
  with Some aj d len read show ?thesis by simp
qed

lemma unat_reply_length: "length data < BUFFER_SIZE \<Longrightarrow> unat (of_nat (length data) :: loff_t) = length data"
  by (intro unat_of_nat_size) (simp add: BUFFER_SIZE_def)

lemma read_contents_frame:
  assumes "read_contents l s f = Returned (p, n, s')" "core_inv (device s)" "malloc_legal l s"
  shows "p = NULL \<and> n = None \<and> s' = s \<or>
    (\<exists>a m bs. p = Some a \<and> n = Some m \<and> a \<notin> dom (memory s) \<and> unat m \<le> length bs \<and>
      same_threads s s' \<and> core_inv (device s') \<and> memory s' = (memory s)(a \<mapsto> bs))"
  using assms(1)
proof (cases rule: read_contents_cases)
  case (read a j data d)
  have "core_inv d" using dev_stdio_read_core_inv [OF read(2) assms(2)] .
  moreover have "unat (of_nat (length data) :: loff_t) \<le> length (reply_block data j)"
    using unat_reply_length [OF read(3)] by (simp add: reply_block_def)
  ultimately show ?thesis using read assms(3) by (auto simp: same_threads_def malloc_legal_def)
qed simp

definition sent_state :: "int \<Rightarrow> server \<Rightarrow> conn \<Rightarrow> byte list \<Rightarrow> server" where
  "sent_state r s c data = (case sockets s (conn_socket c) of
     None \<Rightarrow> if - 1 \<noteq> sint (reply_size c) then close_fd (conn_socket c) s else s
   | Some k \<Rightarrow>
       let s2 = (if 0 < r then s\<lparr>outbox := outbox s @ [(k, take (nat r) data)]\<rparr> else s)
       in if r \<noteq> sint (reply_size c) then close_fd (conn_socket c) s2 else s2)"

lemma send_reply_eq:
  "send_reply r s c p =
    ebind (if p = NULL then Inr [] else load_bytes (memory s) p 0 (unat (reply_size c)))
      (\<lambda>data. Returned (sent_state r s c data))"
proof -
  have mem: "s\<lparr>memory := memory s\<rparr> = s" by simp
  have free: "(if p = NULL then kfree (memory s) p else Inr (memory s)) = Inr (memory s)" by simp
  show ?thesis
    unfolding send_reply_def free ebind.simps mem Let_def [of s]
    by (cases "sockets s (conn_socket c)") (simp_all add: sent_state_def Let_def del: if_split)
qed

lemma sent_state_frame:
  "same_threads s (sent_state r s c data)" "memory (sent_state r s c data) = memory s"
  "device (sent_state r s c data) = device s"
  by (simp_all add: sent_state_def close_fd_def same_threads_def Let_def split: option.split)

lemma send_reply_frame:
  "send_reply r s c p = Returned s' \<Longrightarrow> same_threads s s' \<and> memory s' = memory s \<and> device s' = device s"
  by (auto simp only: send_reply_eq ebind_Returned_iff outcome.inject sent_state_frame)

lemma finish_connection_frame:
  assumes "finish_connection s c p = Returned s'"
  shows "\<exists>i. infos s (conn_info c) = Some i \<and>
    infos s' = (infos s)(conn_info c \<mapsto> i\<lparr>thread_complete_flag := True\<rparr>) \<and>
    thread_list s' = thread_list s \<and> thread_list_mutex s' = thread_list_mutex s \<and> device s' = device s \<and>
    memory s' = (case p of None \<Rightarrow> memory s | Some a \<Rightarrow> (memory s)(a := None))"
proof -
  obtain h where h: "kfree (memory s) p = Inr h"
    using assms by (auto simp: finish_connection_def ebind_Returned_iff)
  have m: "h = (case p of None \<Rightarrow> memory s | Some a \<Rightarrow> (memory s)(a := None))"
    using h by (auto simp: kfree_def split: option.splits if_splits)
  obtain i where i: "infos s (conn_info c) = Some i"
    using assms h by (cases "infos s (conn_info c)") (auto simp: finish_connection_def close_fd_def)
  have "finish_connection s c p = Returned ((close_fd (conn_socket c) (s\<lparr>memory := h\<rparr>))
      \<lparr>infos := (infos s)(conn_info c \<mapsto> i\<lparr>thread_complete_flag := True\<rparr>)\<rparr>)"
    by (simp add: finish_connection_def h i close_fd_def)
  then have "s' = (close_fd (conn_socket c) (s\<lparr>memory := h\<rparr>))
      \<lparr>infos := (infos s)(conn_info c \<mapsto> i\<lparr>thread_complete_flag := True\<rparr>)\<rparr>"
    using assms by (simp only: outcome.inject)
  then have "infos s' = (infos s)(conn_info c \<mapsto> i\<lparr>thread_complete_flag := True\<rparr>)"
    "thread_list s' = thread_list s" "thread_list_mutex s' = thread_list_mutex s" "device s' = device s"
    "memory s' = h"
    by (simp_all add: close_fd_def)
  with i m show ?thesis by blast
qed

section \<open>Every step keeps the invariant\<close>

text \<open>A step of thread \<open>t\<close> that leaves the threads and the memory alone.\<close>

lemma move_inv:
  assumes inv: "system_inv y" and run: "running y t = Some ph"
    and s: "same_threads (srv y) s" "memory s = memory (srv y)" "core_inv (device s)"
    and ph: "held ph' = held ph" "thread_ok (infos s) (memory s) t ph'"
  shows "system_inv (move y t s ph')"
proof -
  note I = system_invD [OF inv]
  let ?y = "move y t s ph'"
  have r: "running ?y u = Some q \<Longrightarrow> \<exists>q0. running y u = Some q0 \<and> held q = held q0" for u q
    using run ph(1) by (auto simp: move_def split: if_splits)
  have "thread_ok (infos (srv ?y)) (memory (srv ?y)) u q" if "running ?y u = Some q" for u q
    using that I(5) s ph(2) by (auto simp: move_def same_threads_def split: if_splits)
  moreover have "u = u'" if "running ?y u = Some q" "running ?y u' = Some q'" "held q = Some a" "held q' = Some a"
    for u u' q q' a
    using that r I(6) by metis
  moreover have "\<exists>u q. running ?y u = Some q \<and> held q = Some a" if a: "a \<in> dom (memory (srv ?y))" for a
  proof -
    from a have "a \<in> dom (memory (srv y))" using s(2) by (simp add: move_def)
    then obtain u q where u: "running y u = Some q" "held q = Some a" using I(7) by blast
    show ?thesis
    proof (cases "u = t")
      case True
      then show ?thesis using u run ph(1) by (intro exI [of _ t] exI [of _ ph']) (simp add: move_def)
    next
      case False
      then show ?thesis using u by (intro exI [of _ u] exI [of _ q]) (simp add: move_def)
    qed
  qed
  moreover have "core_inv (device (srv ?y))" "\<not> thread_list_mutex (srv ?y)" "distinct (thread_list (srv ?y))"
    "set (thread_list (srv ?y)) = dom (infos (srv ?y))"
    using I(1-4) s by (simp_all add: move_def same_threads_def)
  ultimately show ?thesis by (intro system_invI) blast+
qed

text \<open>Reading gives the thread its reply.\<close>

lemma read_inv:
  assumes inv: "system_inv y" and run: "running y t = Some (Reading c f)" and l: "malloc_legal l (srv y)"
    and ret: "read_contents l (srv y) f = Returned (p, n, s)"
  shows "system_inv (move y t s (Sending (set_reply_size n c) p))"
proof -
  note I = system_invD [OF inv]
  have ok: "thread_ok (infos (srv y)) (memory (srv y)) t (Reading c f)" by (rule I(5) [OF run])
  consider "p = NULL" "n = None" "s = srv y" | a m bs where "p = Some a" "n = Some m" "a \<notin> dom (memory (srv y))"
      "unat m \<le> length bs" "same_threads (srv y) s" "core_inv (device s)" "memory s = (memory (srv y))(a \<mapsto> bs)"
    using read_contents_frame [OF ret I(1) l] by blast
  then show ?thesis
  proof cases
    case 1
    then show ?thesis
      using ok I(1) by (intro move_inv [OF inv run]) (auto simp: same_threads_def thread_ok_def)
  next
    case 2
    let ?ph = "Sending (set_reply_size n c) p" and ?y = "move y t s (Sending (set_reply_size n c) p)"
    have fresh: "held q \<noteq> Some a" if "running y u = Some q" for u q
      using I(5) [OF that] 2(3) by (auto simp: thread_ok_def)
    have th: "thread_ok (infos s) (memory s) u q" if "running ?y u = Some q" for u q
    proof (cases "u = t")
      case True
      then have "q = ?ph" using that by (simp add: move_def)
      then show ?thesis using True ok 2 by (auto simp: thread_ok_def same_threads_def)
    next
      case False
      then have "running y u = Some q" using that by (simp add: move_def)
      then show ?thesis using I(5) [of u q] fresh [of u q] 2 by (auto simp: thread_ok_def same_threads_def)
    qed
    have "thread_ok (infos (srv ?y)) (memory (srv ?y)) u q" if "running ?y u = Some q" for u q
      using th [OF that] by (simp add: move_def)
    moreover have "u = u'" if "running ?y u = Some q" "running ?y u' = Some q'" "held q = Some b" "held q' = Some b"
      for u u' q q' b
      using that fresh I(6) [of u q u' q' b] 2(1) by (auto simp: move_def split: if_splits)
    moreover have "\<exists>u q. running ?y u = Some q \<and> held q = Some b" if b: "b \<in> dom (memory (srv ?y))" for b
    proof (cases "b = a")
      case True
      then show ?thesis using 2(1) by (intro exI [of _ t] exI [of _ ?ph]) (simp add: move_def)
    next
      case False
      then have "b \<in> dom (memory (srv y))" using b 2(7) by (auto simp: move_def)
      then obtain u q where u: "running y u = Some q" "held q = Some b" using I(7) by blast
      then have "u \<noteq> t" using run by auto
      with u show ?thesis by (intro exI [of _ u] exI [of _ q]) (simp add: move_def)
    qed
    moreover have "core_inv (device (srv ?y))" "\<not> thread_list_mutex (srv ?y)" "distinct (thread_list (srv ?y))"
      "set (thread_list (srv ?y)) = dom (infos (srv ?y))"
      using I(2-4) 2(5,6) by (simp_all add: move_def same_threads_def)
    ultimately show ?thesis by (intro system_invI) blast+
  qed
qed

text \<open>Finishing takes the reply away.\<close>

lemma finish_inv:
  assumes inv: "system_inv y" and run: "running y t = Some (Closing c p)"
    and ret: "finish_connection (srv y) c p = Returned s"
  shows "system_inv (y\<lparr>srv := s, running := (running y)(t := None)\<rparr>)"
proof -
  note I = system_invD [OF inv]
  have ct: "conn_info c = t" using I(5) [OF run] by (auto simp: thread_ok_def)
  obtain i where i: "infos (srv y) t = Some i" "infos s = (infos (srv y))(t \<mapsto> i\<lparr>thread_complete_flag := True\<rparr>)"
      "thread_list s = thread_list (srv y)" "\<not> thread_list_mutex s" "device s = device (srv y)"
      "memory s = (case p of None \<Rightarrow> memory (srv y) | Some a \<Rightarrow> (memory (srv y))(a := None))"
    using finish_connection_frame [OF ret] ct I(2) by auto
  show ?thesis
  proof (rule system_invI, goal_cases)
    case 4
    then show ?case using I(4) i by auto
  next
    case (5 u q)
    then have u: "u \<noteq> t" "running y u = Some q" by (auto split: if_splits)
    moreover have "held q \<noteq> Some a" if "p = Some a" for a
      using I(6) [OF u(2) run, of a] u(1) that by auto
    ultimately show ?case using I(5) [OF u(2)] i by (auto simp: thread_ok_def split: option.split)
  next
    case (6 u u' q q' a)
    then show ?case using I(6) by (auto split: if_splits)
  next
    case (7 a)
    then have a: "a \<in> dom (memory (srv y))" "p \<noteq> Some a" using i(6) by (auto split: option.splits)
    then obtain u q where u: "running y u = Some q" "held q = Some a" using I(7) by blast
    then have "u \<noteq> t" using run a(2) by auto
    with u show ?case by auto
  qed (use I i in auto)
qed

section \<open>Accepting and cleaning up\<close>

lemma accept_turn_result:
  assumes "accept_turn a s = Returned (started, b, s')" "\<not> thread_list_mutex s"
  shows "memory s' = memory s" "device s' = device s" "\<not> thread_list_mutex s'"
    "(infos s' = infos s \<and> thread_list s' = thread_list s \<and> started = None) \<or>
     (\<exists>p j i. info_malloc a = Some (p, j) \<and> \<not> thread_complete_flag i \<and> infos s' = (infos s)(p \<mapsto> i) \<and>
        thread_list s' = p # thread_list s \<and> started = map_option (\<lambda>t. p) (create_ret a))"
proof -
  consider "accept_ret a = None" | fd k where "accept_ret a = Some (fd, k)" "info_malloc a = None"
    | fd k p j where "accept_ret a = Some (fd, k)" "info_malloc a = Some (p, j)"
    by (cases "accept_ret a"; cases "info_malloc a") auto
  then have "memory s' = memory s \<and> device s' = device s \<and> \<not> thread_list_mutex s' \<and>
    ((infos s' = infos s \<and> thread_list s' = thread_list s \<and> started = None) \<or>
     (\<exists>p j i. info_malloc a = Some (p, j) \<and> \<not> thread_complete_flag i \<and> infos s' = (infos s)(p \<mapsto> i) \<and>
        thread_list s' = p # thread_list s \<and> started = map_option (\<lambda>t. p) (create_ret a)))"
  proof cases
    case 1
    then show ?thesis using assms by (auto simp: accept_turn_def)
  next
    case 2
    then show ?thesis using assms by (auto simp: accept_turn_def close_fd_def)
  next
    case 3
    define i where "i = (case create_ret a of
        None \<Rightarrow> j\<lparr>client_socket := fd, thread_complete_flag := False\<rparr>
      | Some t \<Rightarrow> j\<lparr>client_socket := fd, thread_complete_flag := False, thread_id := t\<rparr>)"
    have "\<not> thread_complete_flag i" by (simp add: i_def split: option.split)
    moreover have "infos s' = (infos s)(p \<mapsto> i) \<and> thread_list s' = p # thread_list s \<and>
        started = map_option (\<lambda>t. p) (create_ret a) \<and> memory s' = memory s \<and> device s' = device s \<and>
        \<not> thread_list_mutex s'"
      using assms 3 by (auto simp: accept_turn_def lock_list_def unlock_list_def Let_def i_def)
    ultimately show ?thesis using 3 by blast
  qed
  then show "memory s' = memory s" "device s' = device s" "\<not> thread_list_mutex s'"
    "(infos s' = infos s \<and> thread_list s' = thread_list s \<and> started = None) \<or>
     (\<exists>p j i. info_malloc a = Some (p, j) \<and> \<not> thread_complete_flag i \<and> infos s' = (infos s)(p \<mapsto> i) \<and>
        thread_list s' = p # thread_list s \<and> started = map_option (\<lambda>t. p) (create_ret a))"
    by blast+
qed

lemma accept_inv:
  assumes inv: "system_inv y" and legal: "accept_legal a (srv y)" and st: "length (stack_buf st) = BUFFER_SIZE"
    and ret: "accept_turn a (srv y) = Returned (started, b, s)"
  shows "system_inv (y\<lparr>srv := s, in_cleanup := b,
      running := (case started of None \<Rightarrow> running y | Some t \<Rightarrow> (running y)(t \<mapsto> Starting st))\<rparr>)"
proof -
  note I = system_invD [OF inv]
  note A = accept_turn_result [OF ret I(2)]
  from A(4) consider "infos s = infos (srv y)" "thread_list s = thread_list (srv y)" "started = None"
    | p j i where "info_malloc a = Some (p, j)" "\<not> thread_complete_flag i" "infos s = (infos (srv y))(p \<mapsto> i)"
        "thread_list s = p # thread_list (srv y)" "started = map_option (\<lambda>t. p) (create_ret a)"
    by blast
  then show ?thesis
  proof cases
    case 1
    then show ?thesis using A(1-3) I by (intro system_invI) auto
  next
    case 2
    have fresh: "p \<notin> dom (infos (srv y))" using legal 2(1) by (simp add: accept_legal_def)
    then have run: "running y p = None"
      using I(5) [of p] by (cases "running y p") (auto simp: thread_ok_def)
    define R where "R = (case started of None \<Rightarrow> running y | Some t \<Rightarrow> (running y)(t \<mapsto> Starting st))"
    have R: "R u = Some q \<Longrightarrow> u \<noteq> p \<and> running y u = Some q \<or> u = p \<and> q = Starting st" for u q
      using 2(5) run by (auto simp: R_def split: option.splits if_splits)
    have R': "running y u = Some q \<Longrightarrow> R u = Some q" for u q
      using 2(5) run by (auto simp: R_def split: option.splits)
    have "system_inv (y\<lparr>srv := s, in_cleanup := b, running := R\<rparr>)"
    proof (rule system_invI, goal_cases)
      case (5 u q)
      then have "u \<noteq> p \<and> running y u = Some q \<or> u = p \<and> q = Starting st" using R by simp
      then show ?case
      proof
        assume u: "u \<noteq> p \<and> running y u = Some q"
        then have "thread_ok (infos (srv y)) (memory (srv y)) u q" using I(5) by blast
        then show ?thesis using u 2(3) A(1) by (simp add: thread_ok_def)
      qed (use 2 st in \<open>simp add: thread_ok_def\<close>)
    next
      case (6 u u' q q' x)
      then have "running y u = Some q" "running y u' = Some q'" using R by fastforce+
      then show ?case using I(6) 6(3,4) by blast
    next
      case (7 x)
      then show ?case using I(7) [of x] A(1) R' by auto
    qed (use 2 A I fresh in \<open>auto\<close>)
    then show ?thesis by (simp only: R_def)
  qed
qed

text \<open>The threads whose flag is set, among those the loop still has to visit.\<close>

definition complete :: "server \<Rightarrow> nat set" where
  "complete s = {p. \<exists>i. infos s p = Some i \<and> thread_complete_flag i}"

definition sockets_of :: "server \<Rightarrow> nat set \<Rightarrow> nat set" where
  "sockets_of s ps = {client_socket i | p i. p \<in> ps \<and> infos s p = Some i}"

lemma reap_loop_result:
  assumes "distinct ps" "set ps \<subseteq> dom (infos s)" "distinct (thread_list s)"
  shows "reap_loop ps s = Returned (s\<lparr>
    thread_list := filter (\<lambda>p. p \<notin> set ps \<inter> complete s) (thread_list s),
    infos := infos s |` (- (set ps \<inter> complete s)),
    sockets := sockets s |` (- sockets_of s (set ps \<inter> complete s))\<rparr>)"
  using assms
proof (induction ps arbitrary: s)
  case Nil
  then show ?case by (simp add: sockets_of_def)
next
  case (Cons p ps)
  obtain i where i: "infos s p = Some i" using Cons.prems(2) by auto
  show ?case
  proof (cases "thread_complete_flag i")
    case False
    then have "set (p # ps) \<inter> complete s = set ps \<inter> complete s" using i by (auto simp: complete_def)
    then show ?thesis using Cons i False by simp
  next
    case True
    let ?s = "(close_fd (client_socket i) s)\<lparr>thread_list := remove1 p (thread_list s), infos := (infos s)(p := None)\<rparr>"
    have p: "p \<notin> set ps" using Cons.prems(1) by simp
    define D where "D = set ps \<inter> complete s"
    have D: "set ps \<inter> complete ?s = D" using p by (auto simp: D_def complete_def)
    have D': "set (p # ps) \<inter> complete s = insert p D"
      using i True by (auto simp: D_def complete_def)
    have sk: "sockets_of ?s D = sockets_of s D" "sockets_of s (insert p D) = insert (client_socket i) (sockets_of s D)"
      using p i by (auto simp: D_def sockets_of_def)
    have l: "filter (\<lambda>q. q \<notin> D) (thread_list ?s) = filter (\<lambda>q. q \<notin> insert p D) (thread_list s)"
      using Cons.prems(3) by (auto simp: distinct_remove1_removeAll removeAll_filter_not_eq intro: filter_cong)
    have f: "infos ?s |` (- D) = infos s |` (- insert p D)"
      by (auto simp: restrict_map_def fun_eq_iff)
    have so: "sockets ?s |` (- S) = sockets s |` (- insert (client_socket i) S)" for S
      by (auto simp: restrict_map_def fun_eq_iff close_fd_def)
    have "reap_loop ps ?s = Returned (?s\<lparr>thread_list := filter (\<lambda>q. q \<notin> set ps \<inter> complete ?s) (thread_list ?s),
      infos := infos ?s |` (- (set ps \<inter> complete ?s)),
      sockets := sockets ?s |` (- sockets_of ?s (set ps \<inter> complete ?s))\<rparr>)"
      using Cons.prems by (intro Cons.IH) (auto simp: distinct_remove1)
    also have "\<dots> = Returned (?s\<lparr>thread_list := filter (\<lambda>q. q \<notin> insert p D) (thread_list s),
      infos := infos s |` (- insert p D),
      sockets := sockets s |` (- insert (client_socket i) (sockets_of s D))\<rparr>)"
      unfolding D sk(1) l f so ..
    finally have "reap_loop (p # ps) s = Returned (s\<lparr>thread_list := filter (\<lambda>q. q \<notin> insert p D) (thread_list s),
      infos := infos s |` (- insert p D),
      sockets := sockets s |` (- insert (client_socket i) (sockets_of s D))\<rparr>)"
      using i True by (simp add: close_fd_def del: insert_iff)
    then show ?thesis unfolding D' sk(2) .
  qed
qed

text \<open>
  The cleanup takes exactly the complete threads off the list, keeps the others in order, frees
  exactly their \<open>ThreadInfo\<close>s, and closes the descriptor numbers stored in them, whoever they
  belong to by now.
\<close>

lemma cleanup_threads_result:
  assumes "\<not> thread_list_mutex s" "distinct (thread_list s)" "set (thread_list s) = dom (infos s)"
  shows "cleanup_threads s = Returned (s\<lparr>
    thread_list := filter (\<lambda>p. p \<notin> complete s) (thread_list s),
    infos := infos s |` (- complete s), sockets := sockets s |` (- sockets_of s (complete s))\<rparr>)"
proof -
  let ?s = "s\<lparr>thread_list_mutex := True\<rparr>"
  have c: "complete ?s = complete s" "sockets_of ?s S = sockets_of s S" for S
    by (simp_all add: complete_def sockets_of_def)
  have "set (thread_list s) \<inter> complete s = complete s"
    using assms(3) by (auto simp: complete_def)
  then have "reap_loop (thread_list s) ?s = Returned (?s\<lparr>
    thread_list := filter (\<lambda>p. p \<notin> complete s) (thread_list s),
    infos := infos s |` (- complete s), sockets := sockets s |` (- sockets_of s (complete s))\<rparr>)"
    using reap_loop_result [of "thread_list s" ?s] assms c by (auto intro: filter_cong)
  then show ?thesis
    using assms(1) by (simp add: cleanup_threads_def lock_list_def unlock_list_def)
qed

lemma cleanup_inv:
  assumes inv: "system_inv y" and ret: "cleanup_threads (srv y) = Returned s"
  shows "system_inv (y\<lparr>srv := s, in_cleanup := False\<rparr>)"
proof -
  note I = system_invD [OF inv]
  note c = cleanup_threads_result [OF I(2-4)]
  have s: "s = (srv y)\<lparr>thread_list := filter (\<lambda>p. p \<notin> complete (srv y)) (thread_list (srv y)),
    infos := infos (srv y) |` (- complete (srv y)),
    sockets := sockets (srv y) |` (- sockets_of (srv y) (complete (srv y)))\<rparr>"
    using ret c by simp
  have alive: "t \<notin> complete (srv y)" if "running y t = Some ph" for t ph
    using I(5) [OF that] by (auto simp: thread_ok_def complete_def)
  show ?thesis
  proof (rule system_invI, goal_cases)
    case 4
    then show ?case using I(4) by (auto simp: s)
  next
    case (5 t ph)
    then have "running y t = Some ph" by simp
    then show ?case using I(5) alive by (simp add: s thread_ok_def)
  qed (use I s in auto)
qed

section \<open>The system\<close>

lemma server_event_inv:
  assumes inv: "system_inv y" and step: "server_event iowr y e y'"
  shows "system_inv y'"
  using step
proof (cases rule: server_event.cases)
  case (start_step t st c)
  have ok: "thread_ok (infos (srv y)) (memory (srv y)) t (Starting st)"
    using system_invD(5) [OF inv] start_step by blast
  then obtain i where i: "infos (srv y) t = Some i" "\<not> thread_complete_flag i" "length (stack_buf st) = BUFFER_SIZE"
    by (auto simp: thread_ok_def)
  then have "thread_ok (infos (srv y)) (memory (srv y)) t (Receiving c)"
    using start_step(4) by (auto simp: connection_start_result thread_ok_def)
  then show ?thesis unfolding start_step(2)
    using system_invD(1) [OF inv] by (intro move_inv [OF inv start_step(3)]) (auto simp: same_threads_def)
next
  case (packet_step t c data l nl c' s)
  have ok: "thread_ok (infos (srv y)) (memory (srv y)) t (Receiving c)"
    using system_invD(5) [OF inv] packet_step by blast
  then have "length (packet_buf c) = BUFFER_SIZE" by (simp add: thread_ok_def)
  note f = process_packet_frame [OF packet_step(9) packet_step(5,6) this packet_step(7,8) system_invD(1) [OF inv]]
  show ?thesis unfolding packet_step(2)
    using f ok by (intro move_inv [OF inv packet_step(3)]) (auto simp: same_threads_def thread_ok_def)
next
  case (open_step t c l f s)
  note f = open_and_seek_frame [OF open_step(4) system_invD(1) [OF inv]]
  have "thread_ok (infos (srv y)) (memory (srv y)) t (Opening c)"
    using system_invD(5) [OF inv] open_step by blast
  then show ?thesis unfolding open_step(2)
    using f by (intro move_inv [OF inv open_step(3)]) (auto simp: same_threads_def thread_ok_def)
next
  case (send_step t c p r s)
  note f = send_reply_frame [OF send_step(4)]
  have "thread_ok (infos (srv y)) (memory (srv y)) t (Sending c p)"
    using system_invD(5) [OF inv] send_step by blast
  then show ?thesis unfolding send_step(2)
    using f system_invD(1) [OF inv]
    by (intro move_inv [OF inv send_step(3)]) (auto simp: same_threads_def thread_ok_def)
next
  case (end_step t c)
  have "thread_ok (infos (srv y)) (memory (srv y)) t (Receiving c)"
    using system_invD(5) [OF inv] end_step by blast
  then show ?thesis unfolding end_step(2)
    using system_invD(1) [OF inv]
    by (intro move_inv [OF inv end_step(3)]) (auto simp: same_threads_def thread_ok_def)
next
  case (accept_step a st started to_cleanup s)
  then show ?thesis using accept_inv [OF inv] by blast
next
  case (cleanup_step s)
  then show ?thesis using cleanup_inv [OF inv] by blast
next
  case (read_step t c f l p n s)
  then show ?thesis using read_inv [OF inv] by blast
next
  case (finish_step t c p s)
  then show ?thesis using finish_inv [OF inv] by blast
qed

interpretation server_sys: invariant_system system_start "server_step iowr" system_inv for iowr
proof (unfold_locales, goal_cases)
  case (1 y)
  then show ?case by (intro system_invI) (simp_all add: system_start_def)
next
  case (2 y y')
  then show ?case using server_event_inv by (auto simp: server_step_def)
qed

text \<open>The steps of a thread that touch shared blocks cannot fault, nor can the cleanup.\<close>

lemma thread_steps_safe:
  assumes inv: "system_inv y" and run: "running y t = Some ph"
  shows "ph = Starting st \<Longrightarrow> \<exists>c. connection_start st t (srv y) = Returned c"
    and "ph = Sending c p \<Longrightarrow> \<exists>s. send_reply r (srv y) c p = Returned s"
    and "ph = Closing c p \<Longrightarrow> \<exists>s. finish_connection (srv y) c p = Returned s"
proof -
  have ok: "thread_ok (infos (srv y)) (memory (srv y)) t ph" by (rule system_invD(5) [OF inv run])
  then obtain i where i: "infos (srv y) t = Some i" by (auto simp: thread_ok_def)
  show "ph = Starting st \<Longrightarrow> \<exists>c. connection_start st t (srv y) = Returned c"
    using i by (simp add: connection_start_def)
  show "\<exists>s. send_reply r (srv y) c p = Returned s" if ph: "ph = Sending c p"
  proof (cases p)
    case (Some a)
    then obtain bs where "memory (srv y) a = Some bs" "unat (reply_size c) \<le> length bs"
      using ok ph by (auto simp: thread_ok_def)
    then show ?thesis using Some by (simp add: send_reply_eq load_bytes_def)
  qed (simp add: send_reply_eq)
  show "\<exists>s. finish_connection (srv y) c p = Returned s" if ph: "ph = Closing c p"
  proof -
    have "conn_info c = t" using ok ph by (auto simp: thread_ok_def)
    then have "infos (srv y) (conn_info c) = Some i" using i by simp
    moreover have "\<exists>h. kfree (memory (srv y)) p = Inr h"
      using ok ph by (cases p) (auto simp: thread_ok_def kfree_def)
    ultimately show ?thesis by (auto simp: finish_connection_def close_fd_def)
  qed
qed

lemma cleanup_safe:
  assumes "system_inv y"
  shows "\<exists>s. cleanup_threads (srv y) = Returned s"
  using cleanup_threads_result [OF system_invD(2-4) [OF assms]] by blast

section \<open>A descriptor closed twice\<close>

text \<open>
  The descriptor of a complete thread is already closed, so the next client may be given the
  same number; the cleanup of the first thread then closes the second one's connection.
\<close>

lemma reused_descriptor:
  assumes inv: "system_inv y" and old: "infos (srv y) p = Some i" "thread_complete_flag i"
    and a: "accept_legal a (srv y)" "accept_ret a = Some (client_socket i, k)" "info_malloc a = Some (q, j)"
      "create_ret a = Some t"
    and acc: "accept_turn a (srv y) = Returned (Some q, True, s1)" and cl: "cleanup_threads s1 = Returned s2"
  shows "sockets s1 (client_socket i) = Some k" "client_socket i \<notin> dom (sockets s2)"
    "\<exists>i'. infos s2 q = Some i' \<and> client_socket i' = client_socket i \<and> \<not> thread_complete_flag i'"
    "q \<in> set (thread_list s2)" "p \<notin> set (thread_list s2)"
proof -
  note I = system_invD [OF inv]
  have fresh: "q \<notin> dom (infos (srv y))" using a(1,3) by (simp add: accept_legal_def)
  then have pq: "p \<noteq> q" using old by auto
  let ?i = "j\<lparr>client_socket := client_socket i, thread_complete_flag := False, thread_id := t\<rparr>"
  have s1: "s1 = (srv y)\<lparr>sockets := (sockets (srv y))(client_socket i \<mapsto> k),
      infos := (infos (srv y))(q \<mapsto> ?i), thread_list := q # thread_list (srv y), thread_list_mutex := False\<rparr>"
    using acc a I(2) by (auto simp: accept_turn_def lock_list_def unlock_list_def Let_def)
  show "sockets s1 (client_socket i) = Some k" by (simp add: s1)
  have wf: "\<not> thread_list_mutex s1" "distinct (thread_list s1)" "set (thread_list s1) = dom (infos s1)"
    using I(2-4) fresh by (auto simp: s1)
  have c: "p \<in> complete s1" "q \<notin> complete s1"
    using old pq by (auto simp: complete_def s1)
  have s2: "s2 = s1\<lparr>thread_list := filter (\<lambda>p. p \<notin> complete s1) (thread_list s1),
    infos := infos s1 |` (- complete s1), sockets := sockets s1 |` (- sockets_of s1 (complete s1))\<rparr>"
    using cleanup_threads_result [OF wf] cl by simp
  have "client_socket i \<in> sockets_of s1 (complete s1)"
    using c(1) old pq unfolding sockets_of_def by (intro CollectI exI [of _ p] exI [of _ i]) (simp add: s1)
  then show "client_socket i \<notin> dom (sockets s2)" by (simp add: s2)
  show "\<exists>i'. infos s2 q = Some i' \<and> client_socket i' = client_socket i \<and> \<not> thread_complete_flag i'"
    using c(2) by (simp add: s2) (simp add: s1)
  show "q \<in> set (thread_list s2)" "p \<notin> set (thread_list s2)"
    using c by (simp_all add: s2) (simp_all add: s1)
qed

section \<open>The order of the critical sections is the order of the log\<close>

text \<open>What an event hands to the device, and what it takes for all of it to arrive.\<close>

fun stored :: "event \<Rightarrow> byte list list" where
  "stored (Packet t l data to_file) = (if to_file then [packet_text data] else [])"
| "stored e = []"

fun event_granted :: "system \<Rightarrow> event \<Rightarrow> bool" where
  "event_granted y (Packet t l data to_file) =
     (stdio_calls (\<lambda>k d xs. good_call k d) dev_wr (stream_io l) (device (srv y)) opened (packet_text data) \<and>
      length (packet_text data) \<le> length (stream_io l) \<and>
      length (pending (abs_dev (device (srv y)))) + length (packet_text data) < 2 ^ 63)"
| "event_granted y e = True"

inductive granted_run ::
  "(nat \<Rightarrow> nat \<Rightarrow> nat \<Rightarrow> uint32_t) \<Rightarrow> system \<Rightarrow> event list \<Rightarrow> system \<Rightarrow> bool" for iowr where
  run_nil: "granted_run iowr y [] y"
| run_cons: "server_event iowr y e y1 \<Longrightarrow> event_granted y e \<Longrightarrow> granted_run iowr y1 es y' \<Longrightarrow>
    granted_run iowr y (e # es) y'"

lemma newline_butlast_packet: "newline \<notin> set (butlast (packet_text data))"
proof -
  have "set (butlast ys) \<subseteq> set (butlast (ys @ zs))" for ys zs :: "byte list"
    by (cases zs) (auto simp: butlast_append dest: in_set_butlastD)
  moreover have "upto_newline data = packet_text data @ dropWhile (\<lambda>c. c \<noteq> 0) (upto_newline data)"
    by (simp add: packet_text_def until_zero_def)
  ultimately show ?thesis using newline_butlast_upto [of data] by (metis subsetD)
qed

lemma stored_line:
  assumes "core_inv d" "stdio_calls (\<lambda>k d xs. good_call k d) dev_wr io d opened xs" "length xs \<le> length io"
    and "length (pending (abs_dev d)) + length xs < 2 ^ 63" "newline \<notin> set (butlast xs)"
    and "stdio_write dev_wr io d opened xs = Returned d'"
  shows "abs_dev d' = foldl spec_write (abs_dev d) [xs]"
proof (cases "xs = []")
  case True
  then show ?thesis using assms(6) by (cases io) (auto simp: spec_write_def spec_append_def)
next
  case False
  then obtain m k io' where io: "io = (m, k) # io'" using assms(3) by (cases io) auto
  then have "\<not> interrupted k" using assms(2) False by (simp add: good_call_def)
  then have "\<not> lock d" using assms(6) False io by (auto simp: dev_wr_def locked_blocks)
  then have "dev_inv d" using assms(1) by (simp add: dev_inv_def)
  from dev_stdio_write_line [OF this calm_simps(5) assms(2-5)] assms(6) False show ?thesis by auto
qed

lemma stdio_read_abs:
  "stdio_read dev_rd io d f n = Returned (data, d') \<Longrightarrow> abs_dev d' = abs_dev d"
  by (erule stdio_read_keeps [where I = "\<lambda>x. abs_dev x = abs_dev d"]) (auto dest!: dev_rd_frame)

lemma read_contents_abs:
  assumes "read_contents l s f = Returned (p, n, s')"
  shows "abs_dev (device s') = abs_dev (device s)"
  using assms by (cases rule: read_contents_cases) (auto dest: stdio_read_abs)

lemma open_and_seek_abs:
  "open_and_seek iowr l s found w o' = Returned (f, s') \<Longrightarrow> abs_dev (device s') = abs_dev (device s)"
  by (auto simp: open_and_seek_def obind_Returned_iff lock_file_Returned Let_def
      split: if_splits dest!: ioctl_frame)

lemma process_packet_device:
  assumes ret: "process_packet l s (recvfrom data c) (int (length data)) = Returned (nl, c', s')"
    and data: "data \<noteq> []" "length data \<le> BUFFER_SIZE" "length (packet_buf c) = BUFFER_SIZE"
    and mem: "malloc_legal l s"
  shows "if found_ioctl_cmd c' then device s' = device s
    else stdio_write dev_wr (stream_io l) (device s) opened (packet_text data) = Returned (device s')"
proof -
  let ?c = "recvfrom data c"
  have m: "\<not> file_mutex s" using ret locked_file_blocks(1) [of s] by fastforce
  have len: "length data < BUFFER_SIZE"
    using ret full_packet_faults [OF m data(3), of data l] data(2) by fastforce
  obtain a j where a: "malloc_ret l = Some (a, j)"
    using ret packet_no_memory [OF m data(3,1) len] by (cases "malloc_ret l") auto
  then have "a \<notin> dom (memory s)" using mem by (simp add: malloc_legal_def)
  from process_packet_eq [OF m _ _ _ a this, of data ?c] ret data len show ?thesis
    by (auto simp: recvfrom_def Let_def obind_Returned_iff split: if_splits)
qed

lemma server_event_log:
  assumes inv: "system_inv y" and ev: "server_event iowr y e y'" and g: "event_granted y e"
  shows "abs_dev (device (srv y')) = foldl spec_write (abs_dev (device (srv y))) (stored e)"
  using ev
proof (cases rule: server_event.cases)
  case (packet_step t c data l nl c' s)
  have "thread_ok (infos (srv y)) (memory (srv y)) t (Receiving c)"
    using system_invD(5) [OF inv] packet_step by blast
  then have c: "length (packet_buf c) = BUFFER_SIZE" by (simp add: thread_ok_def)
  have s: "srv y' = s" using packet_step(2) by (simp add: move_def)
  note d = process_packet_device [OF packet_step(9,5,6) c packet_step(7)]
  show ?thesis
  proof (cases "found_ioctl_cmd c'")
    case True
    then show ?thesis using d s packet_step(1) by simp
  next
    case False
    then have e: "e = Packet t l data True" using packet_step(1) by simp
    have w: "stdio_write dev_wr (stream_io l) (device (srv y)) opened (packet_text data) = Returned (device s)"
      using d False by simp
    show ?thesis
      using stored_line [OF system_invD(1) [OF inv] _ _ _ newline_butlast_packet w] g s
      unfolding e by simp
  qed
next
  case (accept_step a st started to_cleanup s)
  then show ?thesis using accept_turn_result(2) [OF accept_step(6) system_invD(2) [OF inv]] by simp
next
  case (cleanup_step s)
  then show ?thesis using cleanup_threads_result [OF system_invD(2-4) [OF inv]] by auto
next
  case (open_step t c l f s)
  then show ?thesis using open_and_seek_abs [OF open_step(4)] by (simp add: move_def)
next
  case (read_step t c f l p n s)
  then show ?thesis using read_contents_abs [OF read_step(5)] by (simp add: move_def)
next
  case (send_step t c p r s)
  then show ?thesis using send_reply_frame [OF send_step(4)] by (simp add: move_def)
next
  case (finish_step t c p s)
  then show ?thesis using finish_connection_frame [OF finish_step(4)] by auto
qed (simp_all add: move_def)

lemma granted_run_log:
  assumes "granted_run iowr y es y'" "system_inv y"
  shows "abs_dev (device (srv y')) = foldl spec_write (abs_dev (device (srv y))) (concat (map stored es)) \<and>
    system_inv y'"
  using assms
proof (induction rule: granted_run.induct)
  case (run_cons y e y1 es y')
  have "abs_dev (device (srv y1)) = foldl spec_write (abs_dev (device (srv y))) (stored e)"
    using server_event_log [OF run_cons.prems run_cons.hyps(1,2)] .
  moreover have "system_inv y1" using run_cons.prems run_cons.hyps(1) by (rule server_event_inv)
  ultimately show ?case using run_cons.IH by simp
qed simp

lemma granted_run_reached:
  assumes "granted_run iowr y es y'" "reached system_start (server_step iowr) y"
  shows "reached system_start (server_step iowr) y'"
  using assms
proof (induction rule: granted_run.induct)
  case (run_cons y e y1 es y')
  then show ?case by (meson reached_step server_step_def)
qed

lemma granted_run_append:
  "granted_run iowr y es y1 \<Longrightarrow> granted_run iowr y1 es' y' \<Longrightarrow> granted_run iowr y (es @ es') y'"
  by (induction rule: granted_run.induct) (auto intro: granted_run.intros)

end
