(* ===== verification/Server_Progress.thy ===== *)
theory Server_Progress
  imports Server_System
begin

text \<open>
  Mutual exclusion and progress: between the two halves of \<^verbatim>\<open>read_char_device\<close> a thread has the
  mutex and is the only one there; as long as the mutex and the lock of the device are free all
  threads can be brought to their end, one after the other; a mutex that is lost stays lost.
\<close>

section \<open>Mutual exclusion\<close>

definition exclusive :: "system \<Rightarrow> bool" where
  "exclusive y \<longleftrightarrow>
     (\<forall>t c f. running y t = Some (Reading c f) \<longrightarrow>
       file_mutex (srv y) \<and> private_data f \<and> (\<not> found_ioctl_cmd c \<longrightarrow> f = opened)) \<and>
     (\<forall>t t' c c' f f'. running y t = Some (Reading c f) \<longrightarrow> running y t' = Some (Reading c' f') \<longrightarrow> t = t')"

lemma process_packet_mutex:
  "process_packet l s c n = Returned (nl, c', s') \<Longrightarrow> \<not> file_mutex s"
  using locked_file_blocks(1) [of s l c n] by fastforce

lemma ioctl_private:
  "aesd_unlocked_ioctl iowr k stack s filp cmd user = Returned (r, filp', s') \<Longrightarrow>
    private_data filp' = private_data filp"
  by (auto simp: aesd_unlocked_ioctl_def aesd_adjust_file_offset_def mutex_lock_interruptible_def
      mutex_unlock_def Let_def split: if_splits prod.splits)

lemma open_and_seek_mutex:
  assumes "open_and_seek iowr l s found w o' = Returned (f, s')"
  shows "\<not> file_mutex s" "file_mutex s'" "private_data f" "\<not> found \<Longrightarrow> f = opened"
  using assms
  by (auto simp: open_and_seek_def obind_Returned_iff lock_file_Returned Let_def
      split: if_splits dest: ioctl_frame ioctl_private)

lemma sent_state_mutex: "file_mutex (sent_state r s c data) = file_mutex s"
  by (simp add: sent_state_def close_fd_def Let_def split: option.split)

lemma send_reply_mutex: "send_reply r s c p = Returned s' \<Longrightarrow> file_mutex s' = file_mutex s"
  by (auto simp only: send_reply_eq ebind_Returned_iff outcome.inject sent_state_mutex)

lemma finish_connection_mutex: "finish_connection s c p = Returned s' \<Longrightarrow> file_mutex s' = file_mutex s"
  by (auto simp: finish_connection_def ebind_Returned_iff close_fd_def Let_def split: option.splits)

lemma accept_turn_mutex: "accept_turn a s = Returned (started, b, s') \<Longrightarrow> file_mutex s' = file_mutex s"
  by (auto simp: accept_turn_def obind_Returned_iff lock_list_def unlock_list_def close_fd_def Let_def
      split: option.splits if_splits)

lemma reap_loop_mutex: "reap_loop ps s = Returned s' \<Longrightarrow> file_mutex s' = file_mutex s"
  by (induction ps arbitrary: s) (auto simp: close_fd_def split: option.splits if_splits)

lemma cleanup_threads_mutex: "cleanup_threads s = Returned s' \<Longrightarrow> file_mutex s' = file_mutex s"
  by (auto simp: cleanup_threads_def obind_Returned_iff lock_list_def unlock_list_def
      split: if_splits dest!: reap_loop_mutex)

lemmas mutex_frames = send_reply_mutex finish_connection_mutex accept_turn_mutex cleanup_threads_mutex

lemma exclusive_event:
  assumes inv: "exclusive y" and step: "server_event iowr y e y'"
  shows "exclusive y'"
  using step
proof (cases rule: server_event.cases)
  case (accept_step a st started to_cleanup s)
  then show ?thesis using inv mutex_frames(3) [OF accept_step(6)]
    by (auto simp: exclusive_def split: option.splits if_splits)
next
  case (cleanup_step s)
  then show ?thesis using inv mutex_frames(4) [OF cleanup_step(4)] by (simp add: exclusive_def)
next
  case (packet_step t c data l nl c' s)
  then have "running y u \<noteq> Some (Reading d f)" for u d f
    using inv process_packet_mutex [OF packet_step(9)] by (auto simp: exclusive_def)
  then show ?thesis using packet_step(2) by (auto simp: exclusive_def move_def)
next
  case (open_step t c l f s)
  note m = open_and_seek_mutex [OF open_step(4)]
  then have "running y u \<noteq> Some (Reading d f')" for u d f'
    using inv by (auto simp: exclusive_def)
  then show ?thesis using open_step(2) m by (auto simp: exclusive_def move_def)
next
  case (read_step t c f l p n s)
  then have "u = t" if "running y u = Some (Reading d f')" for u d f'
    using inv that unfolding exclusive_def by blast
  then show ?thesis using read_step(2) by (auto simp: exclusive_def move_def split: if_splits)
next
  case (send_step t c p r s)
  then show ?thesis using inv mutex_frames(1) [OF send_step(4)]
    by (auto simp: exclusive_def move_def split: if_splits)
next
  case (finish_step t c p s)
  then show ?thesis using inv mutex_frames(2) [OF finish_step(4)]
    by (auto simp: exclusive_def split: if_splits)
qed (use inv in \<open>auto simp: exclusive_def move_def split: if_splits\<close>)

interpretation server_mutex: invariant_system system_start "server_step iowr" exclusive for iowr
proof (unfold_locales, goal_cases)
  case (1 y)
  then show ?case by (simp add: system_start_def exclusive_def)
next
  case (2 y y')
  then show ?case using exclusive_event by (auto simp: server_step_def)
qed

section \<open>Progress\<close>

text \<open>A kernel and a library that grant what they are asked for.\<close>

definition willing_call :: kernel_call where
  "willing_call = \<lparr>interrupted = False, alloc1 = None, alloc2 = None, copy_in = (\<lambda>user dst. (user, 0)),
     copy_out = (\<lambda>src. 0), size_llseek = (\<lambda>pos off whence sz. (pos, - EINVAL))\<rparr>"

definition willing :: "nat \<Rightarrow> nat \<Rightarrow> libc_call" where
  "willing a n = \<lparr>fopen_ok = True, malloc_ret = Some (a, \<lambda>_. 0), stream_io = replicate (Suc n) (1, willing_call),
     ioctl_call = willing_call, ioctl_stack = [0], seek_end_call = willing_call, seek_set_call = willing_call\<rparr>"

lemma willing_facts [simp]:
  "fopen_ok (willing a n)" "malloc_ret (willing a n) = Some (a, \<lambda>_. 0)" "ioctl_granted (willing a n)"
  "a \<notin> dom (memory s) \<Longrightarrow> read_granted (willing a n) s n"
  "malloc_legal (willing a n) s \<longleftrightarrow> a \<notin> dom (memory s)"
  by (auto simp: willing_def willing_call_def ioctl_granted_def read_granted_def good_read_def malloc_legal_def)

text \<open>A state from which every thread can go on.\<close>

definition seek_in_ring :: "phase \<Rightarrow> bool" where
  "seek_in_ring ph \<longleftrightarrow> (\<forall>c. phase_conn ph = Some c \<longrightarrow> found_ioctl_cmd c \<longrightarrow>
     ioctl_command (ucast (encode_seekto (cmd_number c) (cmd_offset c))) < 10)"

definition can_go_on :: "system \<Rightarrow> bool" where
  "can_go_on y \<longleftrightarrow> system_inv y \<and> exclusive y \<and> \<not> file_mutex (srv y) \<and> \<not> lock (device (srv y)) \<and>
     length (log_bytes (abs_dev (device (srv y)))) < BUFFER_SIZE \<and>
     (\<forall>t ph. running y t = Some ph \<longrightarrow> seek_in_ring ph)"

text \<open>Thread \<open>t\<close> has come to its end; nothing has happened to the others.\<close>

definition ended :: "system \<Rightarrow> nat \<Rightarrow> system \<Rightarrow> bool" where
  "ended y t y' \<longleftrightarrow> running y' = (running y)(t := None) \<and> device (srv y') = device (srv y) \<and>
     file_mutex (srv y') = file_mutex (srv y) \<and>
     (\<exists>i. infos (srv y) t = Some i \<and> infos (srv y') = (infos (srv y))(t \<mapsto> i\<lparr>thread_complete_flag := True\<rparr>))"

text \<open>One step of the thread, and it will end from where it is then.\<close>

lemma ended_step:
  assumes "server_step iowr y (move y t s ph)" "device s = device (srv y)" "file_mutex s = file_mutex (srv y)"
      "infos s = infos (srv y)"
    and "\<exists>y'. (server_step iowr)\<^sup>*\<^sup>* (move y t s ph) y' \<and> ended (move y t s ph) t y'"
  shows "\<exists>y'. (server_step iowr)\<^sup>*\<^sup>* y y' \<and> ended y t y'"
proof -
  obtain y' where y': "(server_step iowr)\<^sup>*\<^sup>* (move y t s ph) y'" "ended (move y t s ph) t y'"
    using assms(5) by blast
  have "ended y t y'" using y'(2) assms(2-4) by (simp add: ended_def move_def)
  with converse_rtranclp_into_rtranclp [of "server_step iowr", OF assms(1) y'(1)] show ?thesis by blast
qed

lemma closing_ends:
  assumes inv: "system_inv y" and run: "running y t = Some (Closing c p)"
  shows "\<exists>y'. (server_step iowr)\<^sup>*\<^sup>* y y' \<and> ended y t y'"
proof -
  obtain s where s: "finish_connection (srv y) c p = Returned s"
    using thread_steps_safe(3) [OF inv run refl] by blast
  have t: "conn_info c = t" using system_invD(5) [OF inv run] by (auto simp: thread_ok_def)
  let ?y = "y\<lparr>srv := s, running := (running y)(t := None)\<rparr>"
  have "server_step iowr y ?y" using finish_step [OF run s] by (auto simp: server_step_def)
  moreover have "ended y t ?y"
    using finish_connection_frame [OF s] finish_connection_mutex [OF s] t by (auto simp: ended_def)
  ultimately show ?thesis by blast
qed

lemma sending_ends:
  assumes inv: "system_inv y" and run: "running y t = Some (Sending c p)"
  shows "\<exists>y'. (server_step iowr)\<^sup>*\<^sup>* y y' \<and> ended y t y'"
proof -
  obtain s where s: "send_reply (- 1) (srv y) c p = Returned s"
    using thread_steps_safe(2) [OF inv run refl] by blast
  note f = send_reply_frame [OF s] send_reply_mutex [OF s]
  have st: "server_step iowr y (move y t s (Closing c p))"
    using send_step [OF run s] by (auto simp: server_step_def)
  have "\<exists>y'. (server_step iowr)\<^sup>*\<^sup>* (move y t s (Closing c p)) y' \<and> ended (move y t s (Closing c p)) t y'"
    by (rule closing_ends [where c = c and p = p, OF server_sys.inv_step [OF inv st]]) (simp add: move_def)
  with st f show ?thesis by (intro ended_step [OF st]) (simp_all add: same_threads_def)
qed

text \<open>There are finitely many threads, so a block is free.\<close>

lemma finite_running:
  assumes "system_inv y"
  shows "finite (dom (running y))"
proof (rule finite_subset)
  show "dom (running y) \<subseteq> set (thread_list (srv y))"
    using system_invD(4,5) [OF assms] by (fastforce simp: thread_ok_def)
qed simp

lemma finite_memory:
  assumes "system_inv y"
  shows "finite (dom (memory (srv y)))"
proof -
  have "dom (memory (srv y)) \<subseteq> (\<lambda>t. the (held (the (running y t)))) ` dom (running y)"
  proof
    fix a assume "a \<in> dom (memory (srv y))"
    then obtain t ph where "running y t = Some ph" "held ph = Some a" using system_invD(7) [OF assms] by blast
    then show "a \<in> (\<lambda>t. the (held (the (running y t)))) ` dom (running y)"
      by (intro image_eqI [of _ _ t]) auto
  qed
  then show ?thesis by (rule finite_subset) (simp add: finite_running [OF assms])
qed

lemma opening_ends:
  assumes go: "can_go_on y" and run: "running y t = Some (Opening c)"
  shows "\<exists>y'. (server_step iowr)\<^sup>*\<^sup>* y y' \<and> ended y t y'"
proof -
  have inv: "system_inv y" and m: "\<not> file_mutex (srv y)"
    and len: "length (log_bytes (abs_dev (device (srv y)))) < BUFFER_SIZE"
    using go by (auto simp: can_go_on_def)
  have d: "dev_inv (device (srv y))" using go by (auto simp: can_go_on_def dev_inv_def system_inv_def)
  have r: "in_range (device (srv y))" using d len by (rule log_in_range)
  obtain a where a: "a \<notin> dom (memory (srv y))"
    using finite_memory [OF inv] ex_new_if_finite [OF infinite_UNIV_nat] by blast
  let ?n = "length (log_bytes (abs_dev (device (srv y))))"
  let ?l = "willing a ?n" and ?s = "(srv y)\<lparr>file_mutex := True\<rparr>"
  obtain f where o: "open_and_seek iowr ?l (srv y) (found_ioctl_cmd c) (cmd_number c) (cmd_offset c) = Returned (f, ?s)"
  proof (cases "found_ioctl_cmd c")
    case True
    then have "ioctl_command (ucast (encode_seekto (cmd_number c) (cmd_offset c))) < 10"
      using go run by (fastforce simp: can_go_on_def seek_in_ring_def)
    then show ?thesis
      using that open_and_seek_result [OF m d r, of ?l _ "cmd_number c" "cmd_offset c"] True by simp
  qed (use that open_plain [OF m] in simp)
  let ?y = "move y t ?s (Reading c f)"
  have 1: "server_step iowr y ?y" using open_step [OF run o] by (auto simp: server_step_def)
  let ?rest = "drop (unat (f_pos f)) (log_bytes (abs_dev (device (srv y))))"
  have rd: "read_contents ?l ?s f = Returned (Some a, Some (of_nat (length ?rest)),
      ?s\<lparr>memory := (memory ?s)(a \<mapsto> reply_block ?rest (\<lambda>_. 0)), file_mutex := False\<rparr>)"
    using open_and_seek_mutex(3) [OF o] d r len a
    by (intro read_contents_ok(1) [of ?s f ?l a "\<lambda>_. 0" ?rest]) simp_all
  let ?s2 = "?s\<lparr>memory := (memory ?s)(a \<mapsto> reply_block ?rest (\<lambda>_. 0)), file_mutex := False\<rparr>"
  let ?ph = "Sending (set_reply_size (Some (of_nat (length ?rest))) c) (Some a)"
  have run': "running ?y t = Some (Reading c f)" "srv ?y = ?s" by (simp_all add: move_def)
  have ml: "malloc_legal ?l (srv ?y)" using a by (simp add: run')
  have "server_step iowr ?y (move ?y t ?s2 ?ph)"
    using read_step [OF run'(1) ml, of "Some a" "Some (of_nat (length ?rest))" ?s2 iowr] rd
    unfolding run'(2) server_step_def by blast
  moreover have "move ?y t ?s2 ?ph = move y t ?s2 ?ph" by (simp add: move_def)
  ultimately have 2: "server_step iowr ?y (move y t ?s2 ?ph)" by simp
  have "system_inv (move y t ?s2 ?ph)" using inv 1 2 by (blast intro: server_sys.inv_step)
  then obtain y' where y': "(server_step iowr)\<^sup>*\<^sup>* (move y t ?s2 ?ph) y'" "ended (move y t ?s2 ?ph) t y'"
    using sending_ends [of "move y t ?s2 ?ph" t] by (fastforce simp: move_def)
  have "ended y t y'" using y'(2) m by (simp add: ended_def move_def)
  moreover have "(server_step iowr)\<^sup>*\<^sup>* y y'"
    using 1 2 y'(1) by (meson converse_rtranclp_into_rtranclp)
  ultimately show ?thesis by blast
qed

text \<open>A step of the thread that only changes where it is.\<close>

lemma can_go_on_move:
  assumes "can_go_on y" "server_step iowr y (move y t (srv y) ph)" "seek_in_ring ph"
  shows "can_go_on (move y t (srv y) ph)"
proof -
  have "system_inv (move y t (srv y) ph)" "exclusive (move y t (srv y) ph)"
    using assms(1,2) server_sys.inv_step server_mutex.inv_step unfolding can_go_on_def by blast+
  then show ?thesis using assms(1,3) by (auto simp: can_go_on_def move_def)
qed

lemma receiving_ends:
  assumes go: "can_go_on y" and run: "running y t = Some (Receiving c)"
  shows "\<exists>y'. (server_step iowr)\<^sup>*\<^sup>* y y' \<and> ended y t y'"
proof -
  have st: "server_step iowr y (move y t (srv y) (Opening c))"
    using end_step [OF run] by (auto simp: server_step_def)
  have "seek_in_ring (Opening c)" using go run by (fastforce simp: can_go_on_def seek_in_ring_def)
  from opening_ends [OF can_go_on_move [OF go st this]] show ?thesis
    by (intro ended_step [OF st]) (auto simp: move_def)
qed

lemma starting_ends:
  assumes go: "can_go_on y" and run: "running y t = Some (Starting st)"
  shows "\<exists>y'. (server_step iowr)\<^sup>*\<^sup>* y y' \<and> ended y t y'"
proof -
  obtain c where c: "connection_start st t (srv y) = Returned c"
    using go thread_steps_safe(1) [OF _ run refl] by (auto simp: can_go_on_def)
  then have "\<not> found_ioctl_cmd c" by (auto simp: connection_start_def split: option.splits)
  then have sk: "seek_in_ring (Receiving c)" by (simp add: seek_in_ring_def)
  have st: "server_step iowr y (move y t (srv y) (Receiving c))"
    using start_step [OF run c] by (auto simp: server_step_def)
  from receiving_ends [OF can_go_on_move [OF go st sk]] show ?thesis
    by (intro ended_step [OF st]) (auto simp: move_def)
qed

lemma thread_ends:
  assumes go: "can_go_on y" and run: "running y t = Some ph"
  shows "\<exists>y'. (server_step iowr)\<^sup>*\<^sup>* y y' \<and> ended y t y' \<and> can_go_on y'"
proof -
  have inv: "system_inv y" "exclusive y" "\<not> file_mutex (srv y)" using go by (simp_all add: can_go_on_def)
  have "\<exists>y'. (server_step iowr)\<^sup>*\<^sup>* y y' \<and> ended y t y'"
  proof (cases ph)
    case (Reading c f)
    then show ?thesis using inv run by (auto simp: exclusive_def)
  qed (use run starting_ends [OF go] receiving_ends [OF go] opening_ends [OF go]
      sending_ends [OF inv(1)] closing_ends [OF inv(1)] in blast)+
  then obtain y' where y': "(server_step iowr)\<^sup>*\<^sup>* y y'" "ended y t y'" by blast
  have "system_inv y' \<and> exclusive y'"
    using y'(1) inv(1,2) by (induction rule: rtranclp_induct) (blast intro: server_sys.inv_step server_mutex.inv_step)+
  then have "can_go_on y'" using y'(2) go by (auto simp: can_go_on_def ended_def)
  with y' show ?thesis by blast
qed

text \<open>So all of them can, one after the other.\<close>

lemma all_threads_end:
  assumes "can_go_on y"
  shows "\<exists>y'. (server_step iowr)\<^sup>*\<^sup>* y y' \<and> running y' = Map.empty \<and> can_go_on y' \<and>
    device (srv y') = device (srv y) \<and>
    (\<forall>t \<in> dom (running y). \<exists>i. infos (srv y') t = Some i \<and> thread_complete_flag i) \<and>
    (\<forall>t. t \<notin> dom (running y) \<longrightarrow> infos (srv y') t = infos (srv y) t)"
proof -
  have "finite (dom (running y))" using assms by (simp add: can_go_on_def finite_running)
  then show ?thesis
    using assms
  proof (induction "dom (running y)" arbitrary: y rule: finite_psubset_induct)
    case psubset
    show ?case
    proof (cases "running y = Map.empty")
      case False
      then obtain t ph where run: "running y t = Some ph" by (meson not_None_eq ext)
      obtain y1 where 1: "(server_step iowr)\<^sup>*\<^sup>* y y1" "ended y t y1" "can_go_on y1"
        using thread_ends [OF psubset.prems run] by blast
      have dom: "dom (running y1) = dom (running y) - {t}" using 1(2) by (simp add: ended_def)
      then have "dom (running y1) \<subset> dom (running y)" using run by auto
      from psubset.hyps(2) [OF this 1(3)] obtain y' where
        2: "(server_step iowr)\<^sup>*\<^sup>* y1 y'" "running y' = Map.empty" "can_go_on y'"
          "device (srv y') = device (srv y1)"
          "\<forall>u \<in> dom (running y1). \<exists>i. infos (srv y') u = Some i \<and> thread_complete_flag i"
          "\<forall>u. u \<notin> dom (running y1) \<longrightarrow> infos (srv y') u = infos (srv y1) u"
        by blast
      obtain i where i: "infos (srv y1) = (infos (srv y))(t \<mapsto> i\<lparr>thread_complete_flag := True\<rparr>)"
        using 1(2) by (auto simp: ended_def)
      have "\<exists>i. infos (srv y') u = Some i \<and> thread_complete_flag i" if "u \<in> dom (running y)" for u
        using that 2(5,6) dom i by (cases "u = t") simp_all
      moreover have "infos (srv y') u = infos (srv y) u" if "u \<notin> dom (running y)" for u
        using that 2(6) dom i run by (cases "u = t") auto
      moreover have "(server_step iowr)\<^sup>*\<^sup>* y y'" using 1(1) 2(1) by simp
      moreover have "device (srv y') = device (srv y)" using 1(2) 2(4) by (simp add: ended_def)
      ultimately show ?thesis using 2(2,3) by blast
    qed (use psubset.prems in auto)
  qed
qed

section \<open>A mutex that is lost\<close>

text \<open>
  The mutex is taken and the thread that took it is not the one that reads: nobody will release
  it.
\<close>

definition mutex_lost :: "system \<Rightarrow> bool" where
  "mutex_lost y \<longleftrightarrow> file_mutex (srv y) \<and> (\<forall>t c f. running y t \<noteq> Some (Reading c f))"

fun touches_file :: "event \<Rightarrow> bool" where
  "touches_file (Packet t l data to_file) = True"
| "touches_file (Open t) = True"
| "touches_file (Read t) = True"
| "touches_file e = False"

lemma mutex_lost_event:
  assumes lost: "mutex_lost y" and inv: "system_inv y" and ev: "server_event iowr y e y'"
  shows "mutex_lost y' \<and> device (srv y') = device (srv y) \<and> \<not> touches_file e"
  using ev
proof (cases rule: server_event.cases)
  case (accept_step a st started to_cleanup s)
  then show ?thesis
    using lost mutex_frames(3) [OF accept_step(6)] accept_turn_result(2) [OF accept_step(6) system_invD(2) [OF inv]]
    by (auto simp: mutex_lost_def split: option.splits)
next
  case (cleanup_step s)
  then show ?thesis
    using lost cleanup_threads_result [OF system_invD(2-4) [OF inv]] by (auto simp: mutex_lost_def)
next
  case (packet_step t c data l nl c' s)
  then show ?thesis using lost process_packet_mutex [OF packet_step(9)] by (simp add: mutex_lost_def)
next
  case (open_step t c l f s)
  then show ?thesis using lost open_and_seek_mutex(1) [OF open_step(4)] by (simp add: mutex_lost_def)
next
  case (read_step t c f l p n s)
  then show ?thesis using lost by (simp add: mutex_lost_def)
next
  case (send_step t c p r s)
  then show ?thesis using lost mutex_frames(1) [OF send_step(4)] send_reply_frame [OF send_step(4)]
    by (auto simp: mutex_lost_def move_def)
next
  case (finish_step t c p s)
  then show ?thesis using lost mutex_frames(2) [OF finish_step(4)] finish_connection_frame [OF finish_step(4)]
    by (auto simp: mutex_lost_def)
qed (use lost in \<open>auto simp: mutex_lost_def move_def\<close>)

lemma mutex_lost_forever:
  assumes "(server_step iowr)\<^sup>*\<^sup>* y y'" "mutex_lost y" "system_inv y"
  shows "mutex_lost y' \<and> system_inv y' \<and> device (srv y') = device (srv y)"
  using assms
proof (induction rule: rtranclp_induct)
  case (step y1 y2)
  then obtain e where e: "server_event iowr y1 e y2" by (auto simp: server_step_def)
  with step mutex_lost_event [OF _ _ e] server_event_inv [OF _ e] show ?case by auto
qed simp

text \<open>Without memory for the reply the reading thread loses it.\<close>

lemma read_loses_mutex:
  fixes l :: libc_call
  assumes run: "running y t = Some (Reading c f)" and ex: "exclusive y"
    and l: "fopen_ok l" "malloc_ret l = None"
  shows "server_event iowr y (Read t) (move y t (srv y) (Sending c NULL))"
    "mutex_lost (move y t (srv y) (Sending c NULL))"
proof -
  have r: "read_contents l (srv y) f = Returned (NULL, None, srv y)" using l by (simp add: read_contents_def)
  have "malloc_legal l (srv y)" using l by (simp add: malloc_legal_def)
  from read_step [OF run this r, of iowr]
  show "server_event iowr y (Read t) (move y t (srv y) (Sending c NULL))" by (simp add: set_reply_size_def)
  have "file_mutex (srv y)" "\<And>u d g. running y u = Some (Reading d g) \<Longrightarrow> u = t"
    using ex run unfolding exclusive_def by blast+
  then show "mutex_lost (move y t (srv y) (Sending c NULL))"
    by (auto simp: mutex_lost_def move_def)
qed

end
