(* ===== verification/Server_Answers.thy ===== *)
theory Server_Answers
  imports Server_Progress
begin

text \<open>
  What a client can be sent under any interleaving and whatever the system answers: a piece of the
  log as it was at one moment.
\<close>

section \<open>Answers\<close>

text \<open>The first packet with the seek command in a connection, and those after it.\<close>

fun seek_packet :: "event \<Rightarrow> bool" where
  "seek_packet (Packet t l data to_file) = (\<not> to_file)"
| "seek_packet e = False"

definition log_after :: "system \<Rightarrow> event list \<Rightarrow> cmd_log" where
  "log_after y es = foldl spec_write (abs_dev (device (srv y))) (concat (map stored es))"

text \<open>
  \<open>data\<close> is a piece of the log as it was at one moment of the run, and its beginning when nobody
  asked for another part.
\<close>

definition answer :: "system \<Rightarrow> event list \<Rightarrow> byte list \<Rightarrow> bool" where
  "answer y es data \<longleftrightarrow> (\<exists>es1. prefix es1 es \<and> sublist data (log_bytes (log_after y es1)) \<and>
     ((\<forall>e \<in> set es. \<not> seek_packet e) \<longrightarrow> prefix data (log_bytes (log_after y es1))))"

lemma answer_mono: "answer y es data \<Longrightarrow> answer y (es @ es') data"
  unfolding answer_def using prefix_prefix [of _ es es'] by (metis UnCI set_append)

lemma answer_take: "answer y es data \<Longrightarrow> answer y es (take n data)"
  unfolding answer_def
  by (meson sublist_order.order_trans sublist_take prefix_order.order_trans take_is_prefix)

lemma answer_now:
  assumes "data = take (length data) (drop n (log_bytes (log_after y es)))"
    and "(\<forall>e \<in> set es. \<not> seek_packet e) \<longrightarrow> n = 0"
  shows "answer y es data"
proof -
  have "sublist (take (length data) (drop n xs)) xs" for xs :: "byte list"
    by (meson sublist_order.order_trans sublist_take sublist_drop)
  then have "sublist data (log_bytes (log_after y es))" by (metis assms(1))
  moreover have "prefix data (log_bytes (log_after y es))" if "n = 0"
    using assms(1) that by (metis drop0 take_is_prefix)
  ultimately show ?thesis unfolding answer_def using assms(2) by blast
qed

lemma answer_nothing: "answer y es []"
  by (auto simp: answer_def)

definition answers_ok :: "system \<Rightarrow> event list \<Rightarrow> system \<Rightarrow> bool" where
  "answers_ok y0 es y \<longleftrightarrow> system_inv y \<and> exclusive y \<and> abs_dev (device (srv y)) = log_after y0 es \<and>
     (\<forall>t ph c. running y t = Some ph \<longrightarrow> phase_conn ph = Some c \<longrightarrow> found_ioctl_cmd c \<longrightarrow>
       (\<exists>e \<in> set es. seek_packet e)) \<and>
     (\<forall>t c a bs. running y t = Some (Sending c (Some a)) \<longrightarrow> memory (srv y) a = Some bs \<longrightarrow>
       answer y0 es (take (unat (reply_size c)) bs)) \<and>
     (\<forall>(k, data) \<in> set (outbox (srv y)). answer y0 es data)"

lemma answers_okD:
  assumes "answers_ok y0 es y"
  shows "system_inv y" "exclusive y" "abs_dev (device (srv y)) = log_after y0 es"
    "\<And>t ph c. running y t = Some ph \<Longrightarrow> phase_conn ph = Some c \<Longrightarrow> found_ioctl_cmd c \<Longrightarrow>
       \<exists>e \<in> set es. seek_packet e"
    "\<And>t c a bs. running y t = Some (Sending c (Some a)) \<Longrightarrow> memory (srv y) a = Some bs \<Longrightarrow>
       answer y0 es (take (unat (reply_size c)) bs)"
    "\<And>k data. (k, data) \<in> set (outbox (srv y)) \<Longrightarrow> answer y0 es data"
  using assms unfolding answers_ok_def by blast+

text \<open>One event, by what it can change: the connections, the replies that are held, the outbox.\<close>

lemma answers_ok_event:
  assumes ok: "answers_ok y0 es y" and ev: "server_event iowr y e y'" and g: "event_granted y e"
    and conns: "\<And>t ph c. running y' t = Some ph \<Longrightarrow> phase_conn ph = Some c \<Longrightarrow> found_ioctl_cmd c \<Longrightarrow>
      (\<exists>u ph' c'. running y u = Some ph' \<and> phase_conn ph' = Some c' \<and> found_ioctl_cmd c') \<or> seek_packet e"
    and replies: "\<And>t c a bs. running y' t = Some (Sending c (Some a)) \<Longrightarrow> memory (srv y') a = Some bs \<Longrightarrow>
      running y t = Some (Sending c (Some a)) \<and> memory (srv y) a = Some bs \<or>
      answer y0 es (take (unat (reply_size c)) bs)"
    and out: "\<And>k data. (k, data) \<in> set (outbox (srv y')) \<Longrightarrow>
      (k, data) \<in> set (outbox (srv y)) \<or> answer y0 es data"
  shows "answers_ok y0 (es @ [e]) y'"
proof -
  note A = answers_okD [OF ok]
  have "abs_dev (device (srv y')) = log_after y0 (es @ [e])"
    using server_event_log [OF A(1) ev g] A(3) by (simp add: log_after_def)
  moreover have "\<exists>e' \<in> set (es @ [e]). seek_packet e'"
    if "running y' t = Some ph" "phase_conn ph = Some c" "found_ioctl_cmd c" for t ph c
    using conns [OF that] A(4) by auto
  moreover have "answer y0 (es @ [e]) (take (unat (reply_size c)) bs)"
    if "running y' t = Some (Sending c (Some a))" "memory (srv y') a = Some bs" for t c a bs
    using replies [OF that] A(5) answer_mono by blast
  moreover have "answer y0 (es @ [e]) data" if "(k, data) \<in> set (outbox (srv y'))" for k data
    using out [OF that] A(6) answer_mono by blast
  ultimately show ?thesis
    using server_event_inv [OF A(1) ev] exclusive_event [OF A(2) ev] unfolding answers_ok_def by blast
qed

section \<open>Every event keeps them\<close>

text \<open>A step of thread \<open>t\<close> that leaves the memory and the outbox alone.\<close>

lemma answers_ok_move:
  assumes ok: "answers_ok y0 es y" and ev: "server_event iowr y e (move y t s ph')" and g: "event_granted y e"
    and run: "running y t = Some ph" and s: "memory s = memory (srv y)" "outbox s = outbox (srv y)"
    and ph: "\<And>c p. ph' \<noteq> Sending c p"
      "\<And>c. phase_conn ph' = Some c \<Longrightarrow> found_ioctl_cmd c \<Longrightarrow>
        (\<exists>c'. phase_conn ph = Some c' \<and> found_ioctl_cmd c') \<or> seek_packet e"
  shows "answers_ok y0 (es @ [e]) (move y t s ph')"
proof (rule answers_ok_event [OF ok ev g], goal_cases)
  case (1 u q c)
  then show ?case using run ph(2) by (cases "u = t") (auto simp: move_def)
next
  case (2 u c a bs)
  then show ?case using ph(1) s by (auto simp: move_def split: if_splits)
next
  case (3 k data)
  then show ?case using s by (simp add: move_def)
qed

lemma process_packet_out:
  assumes "process_packet l s (recvfrom data c) (int (length data)) = Returned (nl, c', s')"
  shows "outbox s' = outbox s"
  using assms
  by (auto simp: process_packet_def obind_Returned_iff ebind_Returned_iff lock_file_Returned unlock_file_def Let_def
      split: if_splits)

lemma open_and_seek_out:
  "open_and_seek iowr l s found w o' = Returned (f, s') \<Longrightarrow> outbox s' = outbox s"
  by (auto simp: open_and_seek_def obind_Returned_iff lock_file_Returned Let_def split: if_splits)

lemma finish_connection_out: "finish_connection s c p = Returned s' \<Longrightarrow> outbox s' = outbox s"
  by (auto simp: finish_connection_def ebind_Returned_iff close_fd_def Let_def split: option.splits)

lemma accept_turn_out: "accept_turn a s = Returned (started, b, s') \<Longrightarrow> outbox s' = outbox s"
  by (auto simp: accept_turn_def obind_Returned_iff lock_list_def unlock_list_def close_fd_def Let_def
      split: option.splits if_splits)

lemma sent_state_out:
  "outbox (sent_state r s c data) = outbox s \<or>
    (\<exists>k. outbox (sent_state r s c data) = outbox s @ [(k, take (nat r) data)])"
  by (auto simp: sent_state_def close_fd_def Let_def split: option.split)

lemma send_reply_out:
  assumes "send_reply r s c p = Returned s'"
  shows "outbox s' = outbox s \<or> (\<exists>k data. outbox s' = outbox s @ [(k, take (nat r) data)] \<and>
    (case p of None \<Rightarrow> data = [] | Some a \<Rightarrow> \<exists>bs. memory s a = Some bs \<and> data = take (unat (reply_size c)) bs))"
proof -
  obtain data where d: "(if p = NULL then Inr [] else load_bytes (memory s) p 0 (unat (reply_size c))) = Inr data"
      "s' = sent_state r s c data"
    using assms by (auto simp only: send_reply_eq ebind_Returned_iff outcome.inject)
  have "case p of None \<Rightarrow> data = [] | Some a \<Rightarrow> \<exists>bs. memory s a = Some bs \<and> data = take (unat (reply_size c)) bs"
    using d(1) by (cases p) (auto simp: load_bytes_Inr)
  then show ?thesis using sent_state_out [of r s c data] d(2) by blast
qed

lemma set_reply_size_found [simp]: "found_ioctl_cmd (set_reply_size n c) = found_ioctl_cmd c"
  by (simp add: set_reply_size_def split: option.split)

lemma found_in_move:
  assumes "running (move y t s ph') u = Some q" "phase_conn q = Some d" "found_ioctl_cmd d"
    and "running y t = Some ph" "phase_conn ph = Some c" "phase_conn ph' = Some c'" "found_ioctl_cmd c' = found_ioctl_cmd c"
  shows "\<exists>u q d. running y u = Some q \<and> phase_conn q = Some d \<and> found_ioctl_cmd d"
  using assms by (cases "u = t") (fastforce simp: move_def)+

lemma accept_answers:
  assumes ok: "answers_ok y0 es y" and ev: "server_event iowr y e y'" and g: "event_granted y e"
    and y': "y' = y\<lparr>srv := s, in_cleanup := b,
      running := (case started of None \<Rightarrow> running y | Some t \<Rightarrow> (running y)(t \<mapsto> Starting st))\<rparr>"
    and ret: "accept_turn a (srv y) = Returned (started, b, s)"
  shows "answers_ok y0 (es @ [e]) y'"
proof -
  note r = accept_turn_result [OF ret system_invD(2) [OF answers_okD(1) [OF ok]]] accept_turn_out [OF ret]
  show ?thesis
  proof (rule answers_ok_event [OF ok ev g], goal_cases)
    case (1 u q c)
    then show ?case using y' by (auto split: option.splits if_splits)
  next
    case (2 u c a bs)
    then show ?case using y' r by (auto split: option.splits if_splits)
  next
    case (3 k data)
    then show ?case using y' r by simp
  qed
qed

lemma cleanup_answers:
  assumes ok: "answers_ok y0 es y" and ev: "server_event iowr y e y'" and g: "event_granted y e"
    and y': "y' = y\<lparr>srv := s, in_cleanup := False\<rparr>" and ret: "cleanup_threads (srv y) = Returned s"
  shows "answers_ok y0 (es @ [e]) y'"
proof -
  note c = cleanup_threads_result [OF system_invD(2-4) [OF answers_okD(1) [OF ok]]]
  show ?thesis
  proof (rule answers_ok_event [OF ok ev g], goal_cases)
    case (1 u q c)
    then show ?case using y' by auto
  qed (use y' ret c in auto)
qed

lemma read_answers:
  assumes ok: "answers_ok y0 es y" and ev: "server_event iowr y e y'" and g: "event_granted y e"
    and y': "y' = move y t s (Sending (set_reply_size n c) p)"
    and run: "running y t = Some (Reading c f)" and l: "malloc_legal l (srv y)"
    and ret: "read_contents l (srv y) f = Returned (p, n, s)"
    and small: "length (log_bytes (log_after y0 es)) < 2 ^ 31"
  shows "answers_ok y0 (es @ [e]) y'"
  using ret
proof (cases rule: read_contents_cases)
  case no_memory
  show ?thesis
  proof (rule answers_ok_event [OF ok ev g], goal_cases)
    case (1 u q d)
    then show ?case using found_in_move [OF _ _ _ run] unfolding y' by fastforce
  qed (use y' no_memory in \<open>auto simp: move_def split: if_splits\<close>)
next
  case (read a j data d)
  note A = answers_okD [OF ok]
  have core: "core_inv (device (srv y))" using system_invD(1) [OF A(1)] .
  then have r: "in_range (device (srv y))"
    using small length_log_bytes [OF core] unfolding A(3) [symmetric] by (simp add: in_range_def)
  have f: "private_data f" "\<not> found_ioctl_cmd c \<Longrightarrow> f = opened"
    using A(2) run unfolding exclusive_def by blast+
  have first: "f = opened" if "\<forall>e \<in> set es. \<not> seek_packet e"
    using that f(2) A(4) [OF run, of c] by auto
  have "data = take (length data) (drop (unat (f_pos f)) (log_bytes (log_after y0 es)))"
    using dev_stdio_read_prefix [OF read(2) core r f(1)] A(3) by simp
  moreover have "unat (f_pos opened) = 0" by (simp add: opened_def aesd_open_def)
  ultimately have an: "answer y0 es data" using first by (intro answer_now) auto
  have fresh: "a \<notin> dom (memory (srv y))" using l read(1) by (simp add: malloc_legal_def)
  show ?thesis
  proof (rule answers_ok_event [OF ok ev g], goal_cases)
    case (1 u q d)
    then show ?case using found_in_move [OF _ _ _ run] unfolding y' by fastforce
  next
    case (2 u d b bs)
    show ?case
    proof (cases "u = t")
      case True
      then have "b = a" "bs = reply_block data j" "unat (reply_size d) = length data"
        using 2 y' read unat_reply_length [OF read(3)] by (auto simp: move_def)
      then show ?thesis using an by (simp add: reply_block_def)
    next
      case False
      then have ru: "running y u = Some (Sending d (Some b))" using 2 y' by (simp add: move_def)
      then have "b \<noteq> a" using system_invD(5) [OF A(1) ru] fresh by (auto simp: thread_ok_def)
      then show ?thesis using 2 ru y' read(6) by (simp add: move_def)
    qed
  next
    case (3 k data)
    then show ?case using y' read(6) by (simp add: move_def)
  qed
qed

lemma send_answers:
  assumes ok: "answers_ok y0 es y" and ev: "server_event iowr y e y'" and g: "event_granted y e"
    and y': "y' = move y t s (Closing c p)"
    and run: "running y t = Some (Sending c p)" and ret: "send_reply r (srv y) c p = Returned s"
  shows "answers_ok y0 (es @ [e]) y'"
proof (rule answers_ok_event [OF ok ev g], goal_cases)
  case (1 u q d)
  then show ?case using found_in_move [OF _ _ _ run] unfolding y' by fastforce
next
  case (2 u d b bs)
  then show ?case using y' send_reply_frame [OF ret] by (auto simp: move_def split: if_splits)
next
  case (3 k data)
  then consider "(k, data) \<in> set (outbox (srv y))" | xs where "data = take (nat r) xs"
      "case p of None \<Rightarrow> xs = [] | Some a \<Rightarrow> \<exists>bs. memory (srv y) a = Some bs \<and> xs = take (unat (reply_size c)) bs"
    using send_reply_out [OF ret] y' by (auto simp: move_def)
  then show ?case
  proof cases
    case 2
    have "answer y0 es xs"
      using 2(2) answers_okD(5) [OF ok] run by (cases p) (auto simp: answer_nothing)
    then show ?thesis using 2(1) answer_take by blast
  qed simp
qed

lemma finish_answers:
  assumes ok: "answers_ok y0 es y" and ev: "server_event iowr y e y'" and g: "event_granted y e"
    and y': "y' = y\<lparr>srv := s, running := (running y)(t := None)\<rparr>" and ret: "finish_connection (srv y) c p = Returned s"
  shows "answers_ok y0 (es @ [e]) y'"
proof -
  obtain m where m: "memory s = (case p of None \<Rightarrow> memory (srv y) | Some a \<Rightarrow> (memory (srv y))(a := None))"
    using finish_connection_frame [OF ret] by blast
  show ?thesis
  proof (rule answers_ok_event [OF ok ev g], goal_cases)
    case (1 u q d)
    then show ?case using y' by (auto split: if_splits)
  next
    case (2 u d b bs)
    then show ?case using y' m by (auto split: if_splits option.splits)
  next
    case (3 k data)
    then show ?case using y' finish_connection_out [OF ret] by simp
  qed
qed

lemma event_answers:
  assumes ok: "answers_ok y0 es y" and ev: "server_event iowr y e y'" and g: "event_granted y e"
    and small: "length (log_bytes (log_after y0 es)) < 2 ^ 31"
  shows "answers_ok y0 (es @ [e]) y'"
  using ev
proof (cases rule: server_event.cases)
  case (start_step t st c)
  have "\<not> found_ioctl_cmd c" using start_step(4) by (auto simp: connection_start_def split: option.splits)
  then show ?thesis unfolding start_step(2)
    using ev start_step by (intro answers_ok_move [OF ok _ g start_step(3)]) auto
next
  case (packet_step t c data l nl c' s)
  note A = answers_okD(1) [OF ok]
  have "thread_ok (infos (srv y)) (memory (srv y)) t (Receiving c)"
    using system_invD(5) [OF A] packet_step by blast
  then have "length (packet_buf c) = BUFFER_SIZE" by (simp add: thread_ok_def)
  note f = process_packet_frame [OF packet_step(9) packet_step(5,6) this packet_step(7,8) system_invD(1) [OF A]]
  show ?thesis unfolding packet_step(2)
    using ev packet_step f(2) process_packet_out [OF packet_step(9)]
    by (intro answers_ok_move [OF ok _ g packet_step(3)]) (auto split: if_splits)
next
  case (end_step t c)
  show ?thesis unfolding end_step(2)
    by (rule answers_ok_move [OF ok ev [unfolded end_step(2)] g end_step(3)]) auto
next
  case (open_step t c l f s)
  note f = open_and_seek_frame [OF open_step(4) system_invD(1) [OF answers_okD(1) [OF ok]]]
    open_and_seek_out [OF open_step(4)]
  then show ?thesis unfolding open_step(2)
    using ev open_step by (intro answers_ok_move [OF ok _ g open_step(3)]) auto
next
  case (accept_step a st started to_cleanup s)
  then show ?thesis using accept_answers [OF ok ev g] by blast
next
  case (cleanup_step s)
  then show ?thesis using cleanup_answers [OF ok ev g] by blast
next
  case (read_step t c f l p n s)
  then show ?thesis using read_answers [OF ok ev g _ _ _ _ small] by blast
next
  case (send_step t c p r s)
  then show ?thesis using send_answers [OF ok ev g] by blast
next
  case (finish_step t c p s)
  then show ?thesis using finish_answers [OF ok ev g] by blast
qed

section \<open>Runs\<close>

lemma granted_run_answers:
  assumes "granted_run iowr y1 es' y'" "answers_ok y0 es y1"
    and "\<And>es1. prefix es1 (es @ es') \<Longrightarrow> length (log_bytes (log_after y0 es1)) < 2 ^ 31"
  shows "answers_ok y0 (es @ es') y'"
  using assms
proof (induction arbitrary: es rule: granted_run.induct)
  case (run_cons y e y1 es' y')
  have "answers_ok y0 (es @ [e]) y1"
    using run_cons.prems by (intro event_answers [OF _ run_cons.hyps(1,2)]) simp_all
  from run_cons.IH [OF this] run_cons.prems(2) show ?case by simp
qed simp

lemma answers_ok_start:
  assumes "system_start y" "outbox (srv y) = []"
  shows "answers_ok y [] y"
  using assms server_sys.inv_init [of y] server_mutex.inv_init [of y]
  by (simp add: answers_ok_def log_after_def system_start_def)

end
