(* ===== verification/Server_Session.thy ===== *)
theory Server_Session
  imports Server_Replies
begin

text \<open>
  Clients served one after another, against an abstract server whose only state is the log.
\<close>

section \<open>The abstract server\<close>

text \<open>Each line is stored, and answered with the log it leaves.\<close>

fun spec_replies :: "cmd_log \<Rightarrow> byte list list \<Rightarrow> byte list list" where
  "spec_replies l [] = []"
| "spec_replies l (line # rest) = log_bytes (spec_write l line) # spec_replies (spec_write l line) rest"

lemma length_spec_replies [simp]: "length (spec_replies l lines) = length lines"
  by (induction lines arbitrary: l) simp_all

lemma spec_replies_nth:
  "n < length lines \<Longrightarrow> spec_replies l lines ! n = log_bytes (foldl spec_write l (take (Suc n) lines))"
  by (induction lines arbitrary: l n) (auto simp: nth_Cons split: nat.split)

text \<open>Whole lines: the answer is the last ten of them.\<close>

lemma whole_lines_replies:
  assumes "\<forall>x \<in> set lines. x \<noteq> [] \<and> last x = newline" "length (commands l) \<le> 10" "pending l = []" "n < length lines"
  shows "spec_replies l lines ! n =
    concat (drop (length (commands l) + Suc n - 10) (commands l @ take (Suc n) lines))"
proof -
  have "\<forall>x \<in> set (take (Suc n) lines). x \<noteq> [] \<and> last x = newline"
    using assms(1) by (auto dest: in_set_takeD)
  from spec_write_lines [OF this assms(2,3)] assms(4) show ?thesis
    by (simp add: spec_replies_nth log_bytes_def min_absorb2)
qed

text \<open>No answer is empty.\<close>

lemma whole_lines_answered:
  assumes "\<forall>x \<in> set lines. x \<noteq> [] \<and> last x = newline" "pending l = []"
  shows "[] \<notin> set (spec_replies l lines)"
  using assms
  by (induction lines arbitrary: l) (auto simp: spec_write_def spec_append_def spec_commit_def log_bytes_def)

section \<open>The server\<close>

text \<open>Every connection with the \<open>ThreadInfo\<close> it was given.\<close>

fun serve_clients ::
  "(nat \<Rightarrow> nat \<Rightarrow> nat \<Rightarrow> uint32_t) \<Rightarrow> (client \<times> nat) list \<Rightarrow> server \<Rightarrow> server outcome" where
  "serve_clients iowr [] s = Returned s"
| "serve_clients iowr ((e, info) # cs) s = obind (handle_connection iowr e info s) (serve_clients iowr cs)"

definition client_line :: "client \<Rightarrow> byte list" where
  "client_line e = upto_newline (concat (map fst (packets e)))"

text \<open>The connection a client's descriptor stands for.\<close>

definition client_conn :: "server \<Rightarrow> nat \<Rightarrow> nat option" where
  "client_conn s info = (case infos s info of None \<Rightarrow> None | Some i \<Rightarrow> sockets s (client_socket i))"

text \<open>
  What is asked of the library and the kernel for one client's text to be stored and answered,
  and for a run of clients, each in the state it finds.
\<close>

definition client_granted :: "client \<Rightarrow> nat \<Rightarrow> server \<Rightarrow> bool" where
  "client_granted e info s \<longleftrightarrow>
     client_conn s info \<noteq> None \<and> length (stack_buf (stack0 e)) = BUFFER_SIZE \<and>
     (case connection_start (stack0 e) info s of
        Returned c \<Rightarrow> packets_granted (packets e) s c | _ \<Rightarrow> False) \<and>
     (\<forall>p \<in> set (packets e). plain_packet (fst p)) \<and>
     length (pending (abs_dev (device s))) + length (concat (map fst (packets e))) < 2 ^ 63 \<and>
     (let reply = log_bytes (spec_write (abs_dev (device s)) (client_line e))
      in length reply < BUFFER_SIZE \<and> read_granted (reply_call e) s (length reply) \<and>
         send_ret e = int (length reply))"

fun clients_granted ::
  "(nat \<Rightarrow> nat \<Rightarrow> nat \<Rightarrow> uint32_t) \<Rightarrow> (client \<times> nat) list \<Rightarrow> server \<Rightarrow> bool" where
  "clients_granted iowr [] s = True"
| "clients_granted iowr ((e, info) # cs) s =
     (client_granted e info s \<and>
      (case handle_connection iowr e info s of
         Returned s' \<Rightarrow> clients_granted iowr cs s' | _ \<Rightarrow> True))"

lemma client_conn_served:
  "client_conn (served s d t r) u = Some k \<Longrightarrow> client_conn s u = Some k"
  by (auto simp: client_conn_def served_def split: option.splits if_splits)

lemma handle_granted:
  assumes "dev_inv (device s)" "\<not> file_mutex s" "client_granted e info s"
  shows "\<exists>d. handle_connection iowr e info s =
      Returned (served s d info (log_bytes (spec_write (abs_dev (device s)) (client_line e)))) \<and>
    dev_inv d \<and> abs_dev d = spec_write (abs_dev (device s)) (client_line e)"
proof -
  obtain i k where i: "infos s info = Some i" "sockets s (client_socket i) = Some k"
    using assms(3) by (auto simp: client_granted_def client_conn_def split: option.splits)
  obtain c where c: "connection_start (stack0 e) info s = Returned c"
    using connection_start_result [OF i(1)] by blast
  show ?thesis
    using assms(3) c
    by (intro handle_plain [OF assms(1,2) i _ c]) (auto simp: client_granted_def client_line_def Let_def)
qed

lemma served_result:
  assumes "client_conn s info = Some k"
  shows "device (served s d info r) = d" "file_mutex (served s d info r) = file_mutex s"
    "memory (served s d info r) = memory s"
    "outbox (served s d info r) = outbox s @ filter (\<lambda>(k, reply). reply \<noteq> []) [(k, r)]"
  using assms by (auto simp: served_def client_conn_def split: option.splits)

lemma clients_granted_conn:
  assumes "dev_inv (device s)" "\<not> file_mutex s" "clients_granted iowr cs s" "(e, info) \<in> set cs"
  shows "client_conn s info \<noteq> None"
  using assms
proof (induction cs arbitrary: s)
  case (Cons v cs)
  obtain e1 t where v: "v = (e1, t)" by (cases v)
  with Cons.prems(3) have g: "client_granted e1 t s" by simp
  obtain d where d: "handle_connection iowr e1 t s =
      Returned (served s d t (log_bytes (spec_write (abs_dev (device s)) (client_line e1))))" "dev_inv d"
    using handle_granted [OF Cons.prems(1,2) g] by blast
  obtain k where k: "client_conn s t = Some k" using g by (auto simp: client_granted_def)
  show ?case
  proof (cases "(e, info) = v")
    case True
    then show ?thesis using v k by simp
  next
    case False
    let ?s = "served s d t (log_bytes (spec_write (abs_dev (device s)) (client_line e1)))"
    have "client_conn ?s info \<noteq> None"
      using Cons.prems d False v by (intro Cons.IH) (auto simp: served_result [OF k])
    then show ?thesis using client_conn_served by blast
  qed
qed simp

text \<open>Serving them is running the abstract server; each reply goes to the client that sent the line.\<close>

lemma serve_clients_result:
  assumes "dev_inv (device s)" "\<not> file_mutex s" "clients_granted iowr cs s"
  shows "\<exists>s'. serve_clients iowr cs s = Returned s' \<and> dev_inv (device s') \<and> \<not> file_mutex s' \<and>
    memory s' = memory s \<and>
    abs_dev (device s') = foldl spec_write (abs_dev (device s)) (map (client_line \<circ> fst) cs) \<and>
    outbox s' = outbox s @ filter (\<lambda>(k, reply). reply \<noteq> [])
      (zip (map (the \<circ> client_conn s \<circ> snd) cs)
        (spec_replies (abs_dev (device s)) (map (client_line \<circ> fst) cs)))"
  using assms
proof (induction cs arbitrary: s)
  case (Cons v cs)
  obtain e t where v: "v = (e, t)" by (cases v)
  with Cons.prems(3) have g: "client_granted e t s" by simp
  let ?log = "spec_write (abs_dev (device s)) (client_line e)"
  obtain d where d: "handle_connection iowr e t s = Returned (served s d t (log_bytes ?log))"
      "dev_inv d" "abs_dev d = ?log"
    using handle_granted [OF Cons.prems(1,2) g] by blast
  obtain k where k: "client_conn s t = Some k" using g by (auto simp: client_granted_def)
  let ?s = "served s d t (log_bytes ?log)"
  note r = served_result [OF k]
  have g': "clients_granted iowr cs ?s" using Cons.prems(3) v d(1) by simp
  have inv: "dev_inv (device ?s)" "\<not> file_mutex ?s" using d(2) Cons.prems(2) by (simp_all add: r)
  have conn: "map (the \<circ> client_conn ?s \<circ> snd) cs = map (the \<circ> client_conn s \<circ> snd) cs"
  proof (rule map_cong [OF refl])
    fix w assume "w \<in> set cs"
    then obtain k' where k': "client_conn ?s (snd w) = Some k'"
      using clients_granted_conn [OF inv g', of "fst w" "snd w"] by auto
    then show "(the \<circ> client_conn ?s \<circ> snd) w = (the \<circ> client_conn s \<circ> snd) w"
      using client_conn_served [OF k'] by simp
  qed
  from Cons.IH [OF inv g'] show ?case
    unfolding conn using v d k by (auto simp: r comp_def)
qed simp

end
