(* ===== verification/Server_Startup.thy ===== *)
theory Server_Startup
  imports Server_Main
begin

text \<open>
  The start of the server: when it ends up accepting on a bound socket, and what the caller of
  the program is told when it does not.
\<close>

text \<open>An address that is tried and given up, which closes its socket again.\<close>

definition gives_up :: "addr_call \<Rightarrow> bool" where
  "gives_up p \<longleftrightarrow> socket_ret p = - 1 \<or> setsockopt_ret p \<noteq> - 1 \<and> bind_ret p = - 1"

definition binds :: "addr_call \<Rightarrow> bool" where
  "binds p \<longleftrightarrow> socket_ret p \<noteq> - 1 \<and> setsockopt_ret p \<noteq> - 1 \<and> bind_ret p \<noteq> - 1"

definition closed_listener :: "listener \<Rightarrow> bool" where
  "closed_listener l \<longleftrightarrow> open_sockets l = {} \<and> bound_sockets l = {}"

lemma bind_loop_gives_up:
  assumes "\<forall>p \<in> set ps. gives_up p" "closed_listener l"
  shows "bind_loop (ps @ qs) l =
    bind_loop qs (l\<lparr>server_socket := (if ps = [] then server_socket l else socket_ret (last ps))\<rparr>)"
  using assms
proof (induction ps arbitrary: l)
  case Nil
  then show ?case by simp
next
  case (Cons p ps)
  let ?l = "l\<lparr>server_socket := socket_ret p\<rparr>"
  have c: "closed_listener ?l" using Cons.prems(2) by (simp add: closed_listener_def)
  have "close_listener (?l\<lparr>open_sockets := insert (socket_ret p) (open_sockets ?l)\<rparr>) = ?l"
    using Cons.prems(2) by (simp add: close_listener_def closed_listener_def)
  then have "bind_loop ((p # ps) @ qs) l = bind_loop (ps @ qs) ?l"
    using Cons.prems(1) by (auto simp: gives_up_def Let_def)
  also have "\<dots> = bind_loop qs (?l\<lparr>server_socket := (if ps = [] then server_socket ?l else socket_ret (last ps))\<rparr>)"
    using Cons.prems(1) c by (intro Cons.IH) simp_all
  finally show ?case by simp
qed

definition handlers_ok :: "os_answers \<Rightarrow> bool" where
  "handlers_ok os \<longleftrightarrow> sigterm_ret os \<noteq> - 1 \<and> sigint_ret os \<noteq> - 1"

lemma register_ok:
  "handlers_ok os \<Longrightarrow> register_signal_handlers os l =
    (register_junk os, l\<lparr>sigterm_handled := True, sigint_handled := True\<rparr>)"
  by (simp add: register_signal_handlers_def handlers_ok_def Let_def)

lemma closed_listener_upd [simp]:
  "closed_listener (l\<lparr>sigterm_handled := a\<rparr>) = closed_listener l"
  "closed_listener (l\<lparr>sigint_handled := a\<rparr>) = closed_listener l"
  "closed_listener (l\<lparr>server_socket := fd\<rparr>) = closed_listener l"
  by (simp_all add: closed_listener_def)

lemma main_startup_serves:
  assumes os: "handlers_ok os" "register_junk os \<noteq> - 1" "getaddrinfo_ret os = 0"
    and addr: "addresses os = ps @ q # qs" "\<forall>p \<in> set ps. gives_up p" "binds q"
    and child: "fork_ret os = 0" "setsid_ret os \<noteq> - 1" "chdir_ret os \<noteq> - 1" "listen_ret os \<noteq> - 1"
    and l: "closed_listener l"
  shows "main_startup os l = (Accepting, l\<lparr>sigterm_handled := True, sigint_handled := True,
    server_socket := socket_ret q, open_sockets := {socket_ret q}, bound_sockets := {socket_ret q}\<rparr>)"
proof -
  let ?l = "l\<lparr>sigterm_handled := True, sigint_handled := True\<rparr>"
  have c: "closed_listener ?l" using l by simp
  have "bind_loop (addresses os) ?l = (Bound, ?l\<lparr>server_socket := socket_ret q,
      open_sockets := {socket_ret q}, bound_sockets := {socket_ret q}\<rparr>)"
    using bind_loop_gives_up [OF addr(2) c, of "q # qs"] addr(1,3) l
    by (simp add: binds_def closed_listener_def)
  then show ?thesis
    using os child addr(3)
    by (simp add: main_startup_def register_ok establish_socket_connection_def start_daemon_mode_def binds_def)
qed

text \<open>Without an address that can be bound the result of establishing the connection is lost.\<close>

lemma main_startup_bind_failure:
  assumes os: "handlers_ok os" "register_junk os \<noteq> - 1" "getaddrinfo_ret os = 0"
    and addr: "\<forall>p \<in> set (addresses os). gives_up p" "addresses os \<noteq> []" "socket_ret (last (addresses os)) \<noteq> - 1"
    and l: "closed_listener l"
  shows "closed_listener (snd (main_startup os l))"
    and "fork_ret os \<noteq> 0 \<Longrightarrow> fork_ret os \<noteq> - 1 \<Longrightarrow> fst (main_startup os l) = Exits 0"
    and "fst (establish_socket_connection os l) = - 1"
proof -
  have bl: "bind_loop (addresses os) l' = (No_address, l'\<lparr>server_socket := socket_ret (last (addresses os))\<rparr>)"
    if "closed_listener l'" for l'
    using bind_loop_gives_up [OF addr(1) that, of "[]"] addr(2) by simp
  let ?l = "l\<lparr>sigterm_handled := True, sigint_handled := True\<rparr>"
  have c: "closed_listener ?l" using l by simp
  show "fst (establish_socket_connection os l) = - 1"
    using os bl [OF l] by (simp add: establish_socket_connection_def)
  show "closed_listener (snd (main_startup os l))"
    using os bl [OF c] l addr(3)
    by (simp add: main_startup_def register_ok establish_socket_connection_def split: sum.split)
  show "fst (main_startup os l) = Exits 0" if "fork_ret os \<noteq> 0" "fork_ret os \<noteq> - 1"
    using os bl [OF c] addr(3) that
    by (simp add: main_startup_def register_ok establish_socket_connection_def start_daemon_mode_def)
qed

lemma main_startup_junk:
  assumes "handlers_ok os" "register_junk os = - 1"
  shows "fst (main_startup os l) = Returns (- 1)"
  using assms by (simp add: main_startup_def register_ok)

end
