(* ===== verification/Server_Example.thy ===== *)
theory Server_Example
  imports Server_Answers Server_Session Server_Startup Driver_Example
begin

text \<open>
  A concrete server over the device of \<^theory_text>\<open>Driver_Example\<close>, with one client, and a library that
  grants everything.
\<close>

definition ex_info :: ThreadInfo where
  "ex_info = \<lparr>thread_id = 1, client_socket = 5, thread_complete_flag = False\<rparr>"

definition ex_server :: server where
  "ex_server = \<lparr>device = ex_dev, memory = Map.empty, file_mutex = False, thread_list_mutex = False,
     infos = [20 \<mapsto> ex_info], thread_list = [20], sockets = [5 \<mapsto> 1], outbox = []\<rparr>"

definition ex_libc :: libc_call where
  "ex_libc = \<lparr>fopen_ok = True, malloc_ret = Some (40, \<lambda>_. 0), stream_io = (100, ex_call) # replicate 20 (100, ex_call),
     ioctl_call = ex_call, ioctl_stack = [0], seek_end_call = ex_call, seek_set_call = ex_call\<rparr>"

definition ex_stack :: thread_stack where
  "ex_stack = \<lparr>stack_buf = replicate BUFFER_SIZE 0, stack_cmd = 0, stack_offset = 0, stack_fsize = 0\<rparr>"

definition ex_conn :: conn where
  "ex_conn = \<lparr>conn_info = 20, conn_socket = 5, packet_buf = replicate BUFFER_SIZE 0, found_ioctl_cmd = False,
     cmd_number = 0, cmd_offset = 0, reply_size = 0\<rparr>"

definition ex_client :: "byte list \<Rightarrow> int \<Rightarrow> client" where
  "ex_client data n = \<lparr>packets = [(data, ex_libc)], reply_call = ex_libc, send_ret = n, stack0 = ex_stack\<rparr>"

text \<open>The library without memory.\<close>

definition ex_no_malloc :: libc_call where
  "ex_no_malloc = ex_libc\<lparr>malloc_ret := None\<rparr>"

lemma ex_server_facts [simp]:
  "device ex_server = ex_dev" "memory ex_server = Map.empty" "file_mutex ex_server = False"
  "infos ex_server = [20 \<mapsto> ex_info]" "sockets ex_server = [5 \<mapsto> 1]" "client_socket ex_info = 5"
  "outbox ex_server = []" "thread_list_mutex ex_server = False" "thread_list ex_server = [20]"
  "\<not> thread_complete_flag ex_info"
  by (simp_all add: ex_server_def ex_info_def)

lemma ex_libc_facts [simp]:
  "fopen_ok ex_libc" "malloc_ret ex_libc = Some (40, \<lambda>_. 0)"
  "stream_io ex_libc = (100, ex_call) # replicate 20 (100, ex_call)" "ioctl_granted ex_libc"
  "seek_end_call ex_libc = ex_call" "seek_set_call ex_libc = ex_call" "good_read ex_call"
  by (simp_all add: ex_libc_def ioctl_granted_def good_read_def)

lemma ex_no_malloc_facts [simp]: "fopen_ok ex_no_malloc" "malloc_ret ex_no_malloc = None"
  by (simp_all add: ex_no_malloc_def)

lemma ex_conn_facts [simp]:
  "conn_info ex_conn = 20" "conn_socket ex_conn = 5" "length (packet_buf ex_conn) = BUFFER_SIZE"
  "\<not> found_ioctl_cmd ex_conn"
  by (simp_all add: ex_conn_def)

lemma ex_client_facts [simp]:
  "packets (ex_client data n) = [(data, ex_libc)]" "reply_call (ex_client data n) = ex_libc"
  "send_ret (ex_client data n) = n" "stack0 (ex_client data n) = ex_stack"
  "length (stack_buf ex_stack) = BUFFER_SIZE"
  by (simp_all add: ex_client_def ex_stack_def)

lemma ex_start [simp]: "connection_start ex_stack 20 ex_server = Returned ex_conn"
  by (simp add: connection_start_def ex_conn_def ex_stack_def)

lemma ex_good_call [simp]: "good_call ex_call ex_dev"
  by (simp add: good_call_def)

lemma ex_plain [simp]: "plain_packet [101, 10]" "packet_text [101, 10] = [101, 10]" "upto_newline [101, 10] = [101, 10]"
proof -
  show u: "upto_newline [101, 10] = [101, 10]" by (simp add: upto_newline_def)
  have "length search_string = 19" by (simp add: search_string_def text_bytes_def)
  then have "\<not> sublist search_string [101, 10]"
    by (auto dest: sublist_length_le)
  then show p: "plain_packet [101, 10]" by (simp add: plain_packet_def u)
  show "packet_text [101, 10] = [101, 10]" using plain_packet_text [OF p] u by simp
qed

lemma ex_packet_granted [simp]: "packet_granted ex_libc ex_server [101, 10]"
proof -
  have "stdio_calls (\<lambda>k d xs. good_call k d) dev_wr (stream_io ex_libc) ex_dev opened [101, 10]"
    by (simp only: ex_libc_facts, rule dev_stdio_calls_one) simp_all
  then show ?thesis by (simp add: packet_granted_def BUFFER_SIZE_def)
qed

lemma ex_packets_granted [simp]: "packets_granted [([101, 10], ex_libc)] ex_server ex_conn"
  by (simp add: packets_granted.simps split: outcome.split)

declare packets_granted.simps [simp del]

lemma ex_read_granted [simp]: "n \<le> 20 \<Longrightarrow> read_granted ex_libc ex_server n"
  by (simp add: read_granted_def)

text \<open>The server, without clients at first, once a client was accepted.\<close>

definition ex_accept :: accept_call where
  "ex_accept = \<lparr>accept_ret = Some (5, 2), info_malloc = Some (21, ex_info), create_ret = Some 7\<rparr>"

definition ex_accepted :: system where
  "ex_accepted = \<lparr>srv = ex_server\<lparr>thread_list := [21], infos := [21 \<mapsto> ex_info\<lparr>thread_id := 7\<rparr>], sockets := [5 \<mapsto> 2]\<rparr>,
     running = [21 \<mapsto> Starting ex_stack], in_cleanup = True\<rparr>"

definition ex_start :: system where
  "ex_start = \<lparr>srv = ex_server\<lparr>infos := Map.empty, thread_list := [], sockets := Map.empty\<rparr>,
     running = Map.empty, in_cleanup = False\<rparr>"

lemma ex_start_start: "system_start ex_start" "outbox (srv ex_start) = []"
  using ex_dev_inv by (simp_all add: ex_start_def system_start_def dev_inv_def)

lemma ex_start_accept: "server_event iowr ex_start Accept ex_accepted"
proof -
  have "accept_turn ex_accept (srv ex_start) = Returned (Some 21, True, srv ex_accepted)"
    by (simp add: accept_turn_def ex_accept_def ex_accepted_def ex_start_def lock_list_def unlock_list_def
        ex_info_def ex_server_def)
  from accept_step [OF _ _ _ this, of ex_stack iowr] show ?thesis
    by (auto simp: ex_accept_def accept_legal_def ex_accepted_def ex_start_def)
qed

lemma ex_accepted_reached: "reached system_start (server_step iowr) ex_accepted"
proof (rule reached_step)
  show "reached system_start (server_step iowr) ex_start" using ex_start_start(1) by (rule reached_init)
  show "server_step iowr ex_start ex_accepted" using ex_start_accept by (auto simp: server_step_def)
qed

text \<open>That client sends nothing, and reads.\<close>

definition ex_reading :: system where
  "ex_reading = \<lparr>srv = (srv ex_accepted)\<lparr>file_mutex := True\<rparr>,
     running = [21 \<mapsto> Reading (ex_conn\<lparr>conn_info := 21\<rparr>) opened], in_cleanup = True\<rparr>"

lemma ex_reading_run: "granted_run iowr ex_start [Accept, Start 21, End 21, Open 21] ex_reading"
proof -
  let ?s = "srv ex_accepted" and ?c = "ex_conn\<lparr>conn_info := 21\<rparr>"
  have c: "connection_start ex_stack 21 ?s = Returned ?c"
    by (simp add: connection_start_def ex_accepted_def ex_conn_def ex_stack_def ex_info_def)
  have o: "open_and_seek iowr ex_libc ?s (found_ioctl_cmd ?c) (cmd_number ?c) (cmd_offset ?c) =
      Returned (opened, ?s\<lparr>file_mutex := True\<rparr>)"
    using open_plain [of ?s] by (simp add: ex_conn_def) (simp add: ex_accepted_def)
  let ?y1 = "move ex_accepted 21 ?s (Receiving ?c)"
  let ?y2 = "move ?y1 21 ?s (Opening ?c)"
  have m: "srv (move y t z ph) = z" "running (move y t z ph) t = Some ph" for y t z ph
    by (simp_all add: move_def)
  have 1: "server_event iowr ex_accepted (Start 21) ?y1"
    by (rule start_step [OF _ c]) (simp add: ex_accepted_def)
  have 2: "server_event iowr ?y1 (End 21) ?y2"
    using end_step [of ?y1 21 ?c iowr] by (simp add: m)
  have "server_event iowr ?y2 (Open 21) (move ?y2 21 (?s\<lparr>file_mutex := True\<rparr>) (Reading ?c opened))"
    by (rule open_step [where l = ex_libc]) (simp_all only: m o)
  moreover have "move ?y2 21 (?s\<lparr>file_mutex := True\<rparr>) (Reading ?c opened) = ex_reading"
    by (simp add: move_def ex_reading_def ex_accepted_def)
  ultimately have 3: "server_event iowr ?y2 (Open 21) ex_reading" by simp
  show ?thesis
    by (intro run_cons [OF ex_start_accept] run_cons [OF 1] run_cons [OF 2] run_cons [OF 3] run_nil) simp_all
qed

lemma ex_reading_reached: "reached system_start (server_step iowr) ex_reading"
  by (rule granted_run_reached [OF ex_reading_run]) (rule reached_init, rule ex_start_start)

text \<open>It is answered.\<close>

definition ex_silent :: "event list" where
  "ex_silent = [Accept, Start 21, End 21, Open 21, Read 21, Send 21]"

lemma ex_silent_run:
  "\<exists>y'. granted_run iowr ex_start ex_silent y' \<and> outbox (srv y') = [(2, [97, 98, 10, 99, 10])]"
proof -
  let ?s1 = "srv ex_reading" and ?log = "[97, 98, 10, 99, 10] :: byte list"
  let ?c = "ex_conn\<lparr>conn_info := 21\<rparr>"
  have s: "device ?s1 = ex_dev" "memory ?s1 = Map.empty" "sockets ?s1 = [5 \<mapsto> 2]" "outbox ?s1 = []"
    by (simp_all add: ex_reading_def ex_accepted_def)
  let ?s2 = "?s1\<lparr>memory := [40 \<mapsto> reply_block ?log (\<lambda>_. 0)], file_mutex := False\<rparr>"
  have r: "read_contents ex_libc ?s1 opened = Returned (Some 40, Some (of_nat (length ?log)), ?s2)"
  proof -
    have rest: "?log = drop (unat (f_pos opened)) (log_bytes (abs_dev (device ?s1)))"
      using s(1) by (simp add: opened_def aesd_open_def log_bytes_def)
    have g: "read_granted ex_libc ?s1 (length (log_bytes (abs_dev (device ?s1))))"
      using s by (simp add: read_granted_def log_bytes_def)
    have d: "dev_inv (device ?s1)" "in_range (device ?s1)" "private_data opened" using s(1) by simp_all
    have "length ?log < BUFFER_SIZE" by (simp add: BUFFER_SIZE_def)
    from read_contents_ok(1) [OF d g ex_libc_facts(2) rest this] s(2) show ?thesis by simp
  qed
  let ?c1 = "set_reply_size (Some (of_nat (length ?log))) ?c"
  have n: "reply_size ?c1 = 5" "conn_socket ?c1 = 5" by simp_all
  have ld: "load_bytes (memory ?s2) (Some 40) 0 (unat (reply_size ?c1)) = Inr ?log"
    by (simp add: n(1) load_bytes_def reply_block_def BUFFER_SIZE_def)
  let ?s3 = "?s2\<lparr>outbox := [(2, ?log)]\<rparr>"
  have sd: "send_reply 5 ?s2 ?c1 (Some 40) = Returned ?s3"
    using ld s by (simp add: send_reply_eq sent_state_def n(2))
  let ?y4 = "move ex_reading 21 ?s2 (Sending ?c1 (Some 40))"
  let ?y5 = "move ?y4 21 ?s3 (Closing ?c1 (Some 40))"
  have m: "srv (move y t z ph) = z" "running (move y t z ph) t = Some ph" for y t z ph
    by (simp_all add: move_def)
  have 4: "server_event iowr ex_reading (Read 21) ?y4"
    by (rule read_step [OF _ _ r]) (use s in \<open>simp_all add: malloc_legal_def\<close>, simp add: ex_reading_def)
  have 5: "server_event iowr ?y4 (Send 21) ?y5"
    by (rule send_step [where r = 5]) (simp_all only: m sd)
  have "granted_run iowr ex_reading [Read 21, Send 21] ?y5"
    by (intro run_cons [OF 4] run_cons [OF 5] run_nil) simp_all
  from granted_run_append [OF ex_reading_run this] show ?thesis
    by (intro exI [of _ ?y5]) (simp add: m ex_silent_def)
qed

end
