(* ===== verification/Server_Properties.thy ===== *)
theory Server_Properties
  imports Server_Example
begin

text \<open>
  The properties of the socket server, each with an instance at the server of
  \<^theory_text>\<open>Server_Example\<close>.
\<close>

unbundle bit_operations_syntax

section \<open>One client\<close>

text \<open>C2. The server's purpose: a client that sends text without the seek command, in packets of any
  size below the receive buffer and cut anywhere, has its bytes up to the first newline written to
  the device as one write would, and is sent back the whole log; its descriptor is closed and its
  thread marked complete, and memory and mutex are left as they were.\<close>

theorem server_echo:
  assumes "dev_inv (device s)" "\<not> file_mutex s"
    and "infos s info = Some i" "sockets s (client_socket i) = Some k"
    and "length (stack_buf (stack0 e)) = BUFFER_SIZE" "connection_start (stack0 e) info s = Returned c"
    and "packets_granted (packets e) s c" "\<forall>p \<in> set (packets e). plain_packet (fst p)"
    and "length (pending (abs_dev (device s))) + length (concat (map fst (packets e))) < 2 ^ 63"
    and "log' = spec_write (abs_dev (device s)) (upto_newline (concat (map fst (packets e))))"
    and "length (log_bytes log') < BUFFER_SIZE"
    and "read_granted (reply_call e) s (length (log_bytes log'))"
    and "send_ret e = int (length (log_bytes log'))"
  shows "\<exists>s'. handle_connection iowr e info s = Returned s' \<and>
    dev_inv (device s') \<and> abs_dev (device s') = log' \<and>
    outbox s' = outbox s @ (if log_bytes log' = [] then [] else [(k, log_bytes log')]) \<and>
    sockets s' = (sockets s)(client_socket i := None) \<and>
    infos s' = (infos s)(info \<mapsto> i\<lparr>thread_complete_flag := True\<rparr>) \<and>
    memory s' = memory s \<and> \<not> file_mutex s'"
proof -
  obtain d where d: "handle_connection iowr e info s = Returned (served s d info (log_bytes log'))"
      "dev_inv d" "abs_dev d = log'"
    using handle_plain [OF assms] by blast
  show ?thesis
    using d assms(2-4) by (intro exI [of _ "served s d info (log_bytes log')"]) (simp add: served_def)
qed

theorem server_echo_witness:
  "\<exists>s'. handle_connection (\<lambda>m n sz. 5) (ex_client [101, 10] 8) 20 ex_server = Returned s' \<and>
    outbox s' = [(1, [97, 98, 10, 99, 10, 100, 101, 10])] \<and> sockets s' = Map.empty"
proof -
  let ?log = "\<lparr>commands = [[97, 98, 10], [99, 10], [100, 101, 10]], pending = []\<rparr>"
  have "spec_write (abs_dev ex_dev) [101, 10] = ?log"
    by (simp add: spec_write_def spec_append_def spec_commit_def)
  then have "\<exists>s'. handle_connection (\<lambda>m n sz. 5) (ex_client [101, 10] 8) 20 ex_server = Returned s' \<and>
    dev_inv (device s') \<and> abs_dev (device s') = ?log \<and>
    outbox s' = outbox ex_server @ (if log_bytes ?log = [] then [] else [(1, log_bytes ?log)]) \<and>
    sockets s' = (sockets ex_server)(client_socket ex_info := None) \<and>
    infos s' = (infos ex_server)(20 \<mapsto> ex_info\<lparr>thread_complete_flag := True\<rparr>) \<and>
    memory s' = memory ex_server \<and> \<not> file_mutex s'"
    by (intro server_echo [where c = ex_conn]) (simp_all add: log_bytes_def BUFFER_SIZE_def)
  then show ?thesis by (auto simp: log_bytes_def)
qed

text \<open>C3. The server's promise over time: clients that each send one whole line, one after the other
  and each in any packets, are all answered, each on its own connection, with the last ten lines of
  the log as its own line left it, and the device keeps the last ten lines.\<close>

theorem server_last_ten_lines:
  assumes "dev_inv (device s)" "\<not> file_mutex s" "clients_granted iowr cs s"
    and "abs_dev (device s) = \<lparr>commands = old, pending = []\<rparr>"
    and "lines = map (client_line \<circ> fst) cs" "\<forall>x \<in> set lines. x \<noteq> [] \<and> last x = newline"
  shows "\<exists>s'. serve_clients iowr cs s = Returned s' \<and> dev_inv (device s') \<and> \<not> file_mutex s' \<and>
    memory s' = memory s \<and>
    commands (abs_dev (device s')) = drop (length old + length lines - 10) (old @ lines) \<and>
    outbox s' = outbox s @ zip (map (the \<circ> client_conn s \<circ> snd) cs)
      (map (\<lambda>n. concat (drop (length old + Suc n - 10) (old @ take (Suc n) lines))) [0..<length lines])"
proof -
  have old: "length (commands (abs_dev (device s))) \<le> 10" "pending (abs_dev (device s)) = []"
    using length_commands [of "device s"] assms(4) by simp_all
  have log: "foldl spec_write (abs_dev (device s)) lines =
      \<lparr>commands = drop (length old + length lines - 10) (old @ lines), pending = []\<rparr>"
    using spec_write_lines [OF assms(6) old] assms(4) by simp
  have replies: "spec_replies (abs_dev (device s)) lines =
      map (\<lambda>n. concat (drop (length old + Suc n - 10) (old @ take (Suc n) lines))) [0..<length lines]"
    using whole_lines_replies [OF assms(6) old] assms(4) by (intro nth_equalityI) simp_all
  have all: "filter (\<lambda>(k, reply). reply \<noteq> []) (zip ks (spec_replies (abs_dev (device s)) lines)) =
      zip ks (spec_replies (abs_dev (device s)) lines)" for ks :: "nat list"
    using whole_lines_answered [OF assms(6) old(2)]
    by (intro filter_True) (auto dest: set_zip_rightD)
  show ?thesis
    using serve_clients_result [OF assms(1-3)] log
    unfolding assms(5) [symmetric] all unfolding replies by auto
qed


theorem server_last_ten_lines_witness:
  "\<exists>s'. serve_clients (\<lambda>m n sz. 5) [(ex_client [101, 10] 2, 20)] (ex_server\<lparr>device := ex_empty_dev\<rparr>) = Returned s' \<and>
    commands (abs_dev (device s')) = [[101, 10]] \<and> outbox s' = [(1, [101, 10])]"
proof -
  let ?s = "ex_server\<lparr>device := ex_empty_dev\<rparr>" and ?cs = "[(ex_client [101, 10] 2, 20 :: nat)]"
  have "stdio_calls (\<lambda>k d xs. good_call k d) dev_wr (stream_io ex_libc) ex_empty_dev opened [101, 10]"
    by (simp only: ex_libc_facts, rule dev_stdio_calls_one) (simp_all add: good_call_def empty_log_def)
  then have "packet_granted ex_libc ?s [101, 10]" by (simp add: packet_granted_def BUFFER_SIZE_def)
  then have p: "packets_granted [([101, 10], ex_libc)] ?s c" for c
    by (simp add: packets_granted.simps split: outcome.split)
  have l: "client_line (ex_client [101, 10] 2) = [101, 10]" by (simp add: client_line_def)
  have "client_granted (ex_client [101, 10] 2) 20 ?s"
    using p by (simp add: client_granted_def client_conn_def connection_start_def l empty_log_def BUFFER_SIZE_def
        spec_write_def spec_append_def spec_commit_def log_bytes_def)
  then have "clients_granted (\<lambda>m n sz. 5) ?cs ?s" by (simp split: outcome.split)
  from server_last_ten_lines [OF _ _ this _ refl, of "[]"] show ?thesis
    by (auto simp: l empty_log_def client_conn_def)
qed

text \<open>C17. How a client's bytes are cut into packets makes no difference: two ways of sending texts
  that agree up to their first newline, both granted what they ask for, leave the same log.\<close>

theorem packets_equivalent:
  assumes "dev_inv (device s)" "\<not> file_mutex s" "length (packet_buf c) = BUFFER_SIZE" "\<not> found_ioctl_cmd c"
    and "packets_granted ps s c" "\<forall>p \<in> set ps. plain_packet (fst p)"
    and "packets_granted qs s c" "\<forall>p \<in> set qs. plain_packet (fst p)"
    and "length (pending (abs_dev (device s))) + length (concat (map fst ps)) < 2 ^ 63"
    and "length (pending (abs_dev (device s))) + length (concat (map fst qs)) < 2 ^ 63"
    and "upto_newline (concat (map fst ps)) = upto_newline (concat (map fst qs))"
  shows "\<exists>c1 d1 c2 d2. receive_loop ps s c = Returned (c1, s\<lparr>device := d1\<rparr>) \<and>
    receive_loop qs s c = Returned (c2, s\<lparr>device := d2\<rparr>) \<and> abs_dev d1 = abs_dev d2 \<and> dev_inv d1 \<and> dev_inv d2"
  using receive_plain [OF assms(1-6,9)] receive_plain [OF assms(1-4,7,8,10)] assms(11) by metis

theorem packets_equivalent_witness:
  "\<exists>c1 d1 c2 d2. receive_loop [([101, 10], ex_libc)] ex_server ex_conn = Returned (c1, ex_server\<lparr>device := d1\<rparr>) \<and>
    receive_loop [([101, 10], ex_libc), ([102], ex_libc)] ex_server ex_conn = Returned (c2, ex_server\<lparr>device := d2\<rparr>) \<and>
    abs_dev d1 = abs_dev d2 \<and> dev_inv d1 \<and> dev_inv d2"
proof (rule packets_equivalent)
  obtain c' d where "process_packet ex_libc ex_server (recvfrom [101, 10] ex_conn) (int (length [101 :: byte, 10])) =
      Returned (newline \<in> set [101 :: byte, 10], c', ex_server\<lparr>device := d\<rparr>)"
    using process_plain_packet [of ex_server ex_conn ex_libc "[101, 10]"] by auto
  then show "packets_granted [([101, 10], ex_libc), ([102], ex_libc)] ex_server ex_conn"
    by (simp add: packets_granted.simps)
  have "sublist search_string [102] \<Longrightarrow> False"
    using sublist_length_le [of search_string "[102]"] by (simp add: search_string_def text_bytes_def)
  then have "plain_packet [102]" by (auto simp: plain_packet_def upto_newline_def)
  then show "\<forall>p \<in> set [([101, 10], ex_libc), ([102], ex_libc)]. plain_packet (fst p)" by simp
qed (simp_all add: upto_newline_def)

text \<open>C12. A client that sends the seek command for a command below ten and an offset below sixteen is
  sent the log from that byte on; the command itself is not stored and the device is unchanged.\<close>

theorem server_seek:
  assumes "dev_inv (device s)" "\<not> file_mutex s" "length (log_bytes (abs_dev (device s))) < BUFFER_SIZE"
    and "infos s info = Some i" "sockets s (client_socket i) = Some k"
    and "length (stack_buf (stack0 e)) = BUFFER_SIZE" "cmd < 10" "off < 16"
    and "packets e = [(seek_line cmd off, l)]" "malloc_ret l = Some (a, j)" "a \<notin> dom (memory s)"
    and "read_granted (reply_call e) s (length (log_bytes (abs_dev (device s))))" "ioctl_granted (reply_call e)"
    and "rest = drop (length (concat (take cmd (commands (abs_dev (device s))))) + off) (log_bytes (abs_dev (device s)))"
    and "send_ret e = int (length rest)"
  shows "\<exists>s'. handle_connection iowr e info s = Returned s' \<and> device s' = device s \<and>
    outbox s' = outbox s @ (if rest = [] then [] else [(k, rest)]) \<and> \<not> file_mutex s' \<and> memory s' = memory s"
  using handle_seek [OF assms] assms(2,4,5) by (simp add: served_def)

theorem server_seek_witness:
  "\<exists>s'. handle_connection (\<lambda>m n sz. 5) (ex_client (seek_line 0 1) 4) 20 ex_server = Returned s' \<and>
    outbox s' = [(1, [98, 10, 99, 10])]"
proof -
  let ?rest = "[98, 10, 99, 10] :: byte list"
  have "\<exists>s'. handle_connection (\<lambda>m n sz. 5) (ex_client (seek_line 0 1) 4) 20 ex_server = Returned s' \<and>
    device s' = device ex_server \<and> outbox s' = outbox ex_server @ (if ?rest = [] then [] else [(1, ?rest)]) \<and>
    \<not> file_mutex s' \<and> memory s' = memory ex_server"
    by (rule server_seek [where cmd = 0 and off = 1 and l = ex_libc and i = ex_info])
      (simp_all add: log_bytes_def BUFFER_SIZE_def)
  then show ?thesis by auto
qed

text \<open>C32. The text of the seek command is read back: the numbers a client writes in decimal, each
  below \<open>2^32\<close>, are the ones found in the packet.\<close>

theorem seek_line_roundtrip:
  assumes "cmd < 2 ^ 32" "off < 2 ^ 32"
  shows "scan_command (packet_text (seek_line cmd off)) c =
    c\<lparr>found_ioctl_cmd := True, cmd_number := of_nat cmd, cmd_offset := of_nat off\<rparr>"
  using assms by (simp add: seek_line_text(1) scan_seek_line)

theorem seek_line_roundtrip_witness:
  "scan_command (packet_text (seek_line 3 12)) ex_conn =
    ex_conn\<lparr>found_ioctl_cmd := True, cmd_number := 3, cmd_offset := 12\<rparr>"
  using seek_line_roundtrip [of 3 12 ex_conn] by simp

text \<open>C22. The single number the server sends in place of the two is decoded by the driver to the same
  two exactly when both are below sixteen; otherwise the offset's upper bits run into the command,
  and only the low four bits of each are kept.\<close>

theorem encode_seekto_roundtrip:
  "(ioctl_command (ucast (encode_seekto c d)) = unat c \<and> ioctl_offset (ucast (encode_seekto c d)) = unat d
    \<longleftrightarrow> unat c < 16 \<and> unat d < 16) \<and>
   ioctl_command (ucast (encode_seekto c d)) = (unat c OR unat d div 16) mod 16 \<and>
   ioctl_offset (ucast (encode_seekto c d)) = unat d mod 16"
proof -
  have m: "x mod 16 = x \<longleftrightarrow> x < 16" for x :: nat by presburger
  then have "unat d mod 16 = unat d \<longleftrightarrow> unat d < 16" .
  moreover have "(unat c OR unat d div 16) mod 16 = unat c \<longleftrightarrow> unat c < 16" if "unat d < 16"
    using that by (simp add: m)
  ultimately show ?thesis by (auto simp: encode_nibbles)
qed

text \<open>C31. Taking a packet up to its newline: for a packet that fits below the buffer the new string is
  the packet up to and with its first newline, or all of it, followed by a zero byte; the flag says
  whether there was a newline, nothing behind the packet is looked at, and nothing else changes in
  memory.\<close>

theorem extract_data_spec:
  assumes "0 < length data" "length data < length buf" "take (length data) buf = data"
    and "m = Some (a, junk)" "a \<notin> dom h"
  shows "extract_data_up_to_newline m h buf (int (length data)) =
    Returned (Some a, newline \<in> set data, h(a \<mapsto> upto_newline data @ [0]))"
  using assms by (rule extract_result)

theorem extract_data_spec_witness:
  "extract_data_up_to_newline (Some (4, \<lambda>_. 7)) Map.empty [104, 10, 105, 9, 9] 3 =
    Returned (Some 4, True, [4 \<mapsto> [104, 10, 0]])"
  using extract_data_spec [of "[104, 10, 105]" "[104, 10, 105, 9, 9]" "Some (4, \<lambda>_. 7)" 4 "\<lambda>_. 7" Map.empty]
  by (simp add: upto_newline_def)

section \<open>What can go wrong for one client\<close>



text \<open>C35. Both buffers are one byte short. A packet that fills the receive buffer, and a log that fills
  the reply buffer, are terminated behind its end: for any smaller one there is room.\<close>

theorem buffers_one_short:
  assumes "dev_inv (device s)" "in_range (device s)" "\<not> file_mutex s" "length (packet_buf c) = BUFFER_SIZE"
    and "read_granted l s (length (log_bytes (abs_dev (device s))))"
    and "length data = BUFFER_SIZE"
  shows "process_packet l s (recvfrom data c) (int (length data)) = Oops OutOfBounds \<and>
    (read_char_device iowr l s False wcmd woff = Oops OutOfBounds \<longleftrightarrow>
      BUFFER_SIZE \<le> length (log_bytes (abs_dev (device s))))"
proof -
  obtain a j where m: "malloc_ret l = Some (a, j)" using assms(5) by (rule read_grantedE)
  have "returns (read_char_device iowr l s False wcmd woff)" if "length (log_bytes (abs_dev (device s))) < BUFFER_SIZE"
  proof -
    let ?s1 = "s\<lparr>file_mutex := True\<rparr>"
    have "returns (read_contents l ?s1 opened)"
      using read_contents_ok(1) [of ?s1 opened l a j, OF _ _ _ _ m refl] assms(1,2,5) that
      by (simp add: opened_def aesd_open_def)
    then show ?thesis using assms(3) by (simp add: read_char_device_def open_plain)
  qed
  then show ?thesis
    using full_packet_faults [OF assms(3,4,6)] full_reply_faults [OF assms(1-3,5)] by force
qed

theorem buffers_one_short_witness:
  "process_packet ex_libc ex_server (recvfrom (replicate BUFFER_SIZE 97) ex_conn) (int BUFFER_SIZE) = Oops OutOfBounds"
  using buffers_one_short [of ex_server ex_conn ex_libc "replicate BUFFER_SIZE 97"] by (simp add: log_bytes_def)

text \<open>Without memory for a reply the mutex of the file stays taken: that client's thread ends, and
  from then on every thread blocks at its first packet or its reply.\<close>

lemma reply_no_memory_stops_server:
  assumes "\<not> file_mutex s" "infos s info = Some i"
    and "packets e = []" "fopen_ok (reply_call e)" "malloc_ret (reply_call e) = None"
  shows "\<exists>s'. handle_connection iowr e info s = Returned s' \<and> file_mutex s' \<and>
    (\<forall>e' info'. infos s' info' \<noteq> None \<longrightarrow> handle_connection iowr e' info' s' = Blocked)"
  using handle_no_memory [OF assms] handle_locked by blast

lemma reply_no_memory_stops_server_example:
  "\<exists>s'. handle_connection (\<lambda>m n sz. 5) ((ex_client [] 0)\<lparr>packets := [], reply_call := ex_no_malloc\<rparr>) 20 ex_server = Returned s' \<and>
    file_mutex s'"
  using reply_no_memory_stops_server [of ex_server 20 ex_info "(ex_client [] 0)\<lparr>packets := [], reply_call := ex_no_malloc\<rparr>" "\<lambda>m n sz. 5"]
  by auto

text \<open>C19. One packet stops the server for good: the seek command for a command of ten to fifteen makes
  the driver keep its lock, so the client's thread blocks while it holds the mutex of the file, and
  with it every other critical section: no packet is stored and no reply read any more.\<close>

theorem seek_stops_server:
  assumes "dev_inv (device s)" "length (log_bytes (abs_dev (device s))) < BUFFER_SIZE" "\<not> file_mutex s"
    and "10 \<le> cmd" "cmd < 16" "off < 16" "infos s info = Some i" "length (stack_buf (stack0 e)) = BUFFER_SIZE"
    and "packets e = [(seek_line cmd off, l)]" "malloc_ret l = Some (a, j)" "a \<notin> dom (memory s)"
    and "ioctl_granted (reply_call e)" "fopen_ok (reply_call e)" "malloc_ret (reply_call e) \<noteq> None"
      "\<forall>(m, k) \<in> set (stream_io (reply_call e)). \<not> interrupted k"
  shows "handle_connection iowr e info s = Blocked \<and>
    (\<exists>s1. open_and_seek iowr (reply_call e) s True (of_nat cmd) (of_nat off) = Returned (opened, s1) \<and>
      read_contents (reply_call e) s1 opened = Blocked \<and>
      (\<forall>l c n. process_packet l s1 c n = Blocked) \<and>
      (\<forall>l b w d. open_and_seek iowr l s1 b w d = Blocked) \<and>
      (\<forall>l ts. add_timestamp_to_file l ts s1 = Blocked))"
proof -
  let ?s1 = "s\<lparr>file_mutex := True, device := (device s)\<lparr>lock := True\<rparr>\<rparr>"
  have "open_and_seek iowr (reply_call e) s True (of_nat cmd) (of_nat off) = Returned (opened, ?s1)"
    using assms(1-6,12,13) by (rule seek_wedges)
  moreover have "read_contents (reply_call e) ?s1 opened = Blocked"
    using assms(13-15) by (intro read_contents_locked) simp_all
  moreover have "file_mutex ?s1" by simp
  ultimately show ?thesis
    using handle_seek_blocks [OF assms] locked_file_blocks [of ?s1] by blast
qed

theorem seek_stops_server_witness:
  "handle_connection (\<lambda>m n sz. 5) (ex_client (seek_line 10 0) 0) 20 ex_server = Blocked"
  using seek_stops_server [of ex_server 10 0 20 ex_info "ex_client (seek_line 10 0) 0" ex_libc 40 "\<lambda>_. 0" "\<lambda>m n sz. 5"]
  by (simp add: log_bytes_def BUFFER_SIZE_def)

section \<open>All clients\<close>

text \<open>C7. In every state the server can get into, with any number of clients whose threads interleave
  in any way and whatever the system answers: the device's invariant holds, the list links exactly
  the allocated \<open>ThreadInfo\<close>s, each running thread owns one that is not marked complete, the
  memory holds exactly the replies being sent, each owned by one thread, and at most one thread is
  reading the file, which then has the mutex.\<close>

theorem server_reachable:
  assumes "reached system_start (server_step iowr) y"
  shows "system_inv y \<and> exclusive y"
  using assms server_sys.reached_inv server_mutex.reached_inv by blast


theorem server_reachable_witness:
  "system_inv ex_accepted \<and> exclusive ex_accepted"
  by (rule server_reachable [OF ex_accepted_reached])



text \<open>C11. Progress: as long as the mutex and the device's lock are free, the log fits the reply buffer
  and no client has asked for a command of ten or more, no thread is stuck. From every such
  reachable state all threads can run to their end, with nothing but answers the system can give:
  the replies are freed, the mutex is free again, the device is unchanged, and each thread is
  marked for the cleanup.\<close>

theorem server_drains:
  assumes "reached system_start (server_step iowr) y"
    and "\<not> file_mutex (srv y)" "\<not> lock (device (srv y))"
      "length (log_bytes (abs_dev (device (srv y)))) < BUFFER_SIZE"
    and "\<And>t ph. running y t = Some ph \<Longrightarrow> seek_in_ring ph"
  shows "\<exists>y'. (server_step iowr)\<^sup>*\<^sup>* y y' \<and> running y' = Map.empty \<and> memory (srv y') = Map.empty \<and>
    device (srv y') = device (srv y) \<and> \<not> file_mutex (srv y') \<and>
    (\<forall>t \<in> dom (running y). \<exists>i. infos (srv y') t = Some i \<and> thread_complete_flag i)"
proof -
  have "can_go_on y"
    using assms server_sys.reached_inv server_mutex.reached_inv by (simp add: can_go_on_def)
  then obtain y' where y': "(server_step iowr)\<^sup>*\<^sup>* y y'" "running y' = Map.empty" "can_go_on y'"
      "device (srv y') = device (srv y)"
      "\<forall>t \<in> dom (running y). \<exists>i. infos (srv y') t = Some i \<and> thread_complete_flag i"
    using all_threads_end by blast
  moreover have "memory (srv y') = Map.empty"
    using y'(2,3) system_invD(7) [of y'] by (fastforce simp: can_go_on_def)
  ultimately show ?thesis by (auto simp: can_go_on_def)
qed

theorem server_drains_witness:
  "\<exists>y'. (server_step (\<lambda>m n sz. 5))\<^sup>*\<^sup>* ex_accepted y' \<and> running y' = Map.empty \<and>
    (\<exists>i. infos (srv y') 21 = Some i \<and> thread_complete_flag i)"
proof -
  have "\<exists>y'. (server_step (\<lambda>m n sz. 5))\<^sup>*\<^sup>* ex_accepted y' \<and> running y' = Map.empty \<and> memory (srv y') = Map.empty \<and>
    device (srv y') = device (srv ex_accepted) \<and> \<not> file_mutex (srv y') \<and>
    (\<forall>t \<in> dom (running ex_accepted). \<exists>i. infos (srv y') t = Some i \<and> thread_complete_flag i)"
    by (rule server_drains [OF ex_accepted_reached])
      (auto simp: ex_accepted_def log_bytes_def BUFFER_SIZE_def seek_in_ring_def split: if_splits)
  then show ?thesis by (auto simp: ex_accepted_def)
qed




text \<open>C13. One failed allocation stops the server: a reachable thread that finds no memory for its reply
  leaves the mutex taken, and whatever happens from then on, in any interleaving and with any
  answers of the system, no packet is stored and no reply is read any more.\<close>

theorem reply_without_memory_stops_all:
  fixes l :: libc_call
  assumes "reached system_start (server_step iowr) y" "running y t = Some (Reading c f)"
    and "fopen_ok l" "malloc_ret l = None"
  shows "read_contents l (srv y) f = Returned (NULL, None, srv y) \<and>
    (\<exists>y1. server_event iowr y (Read t) y1 \<and>
      (\<forall>y2 e y3. (server_step iowr)\<^sup>*\<^sup>* y1 y2 \<longrightarrow> server_event iowr y2 e y3 \<longrightarrow>
        \<not> touches_file e \<and> file_mutex (srv y3) \<and> device (srv y3) = device (srv y)))"
proof -
  let ?y = "move y t (srv y) (Sending c NULL)"
  have inv: "system_inv y" "exclusive y"
    using assms(1) server_sys.reached_inv server_mutex.reached_inv by blast+
  note lost = read_loses_mutex [OF assms(2) inv(2) assms(3,4)]
  have inv1: "system_inv ?y" using inv(1) lost(1) by (rule server_event_inv)
  have "\<not> touches_file e \<and> file_mutex (srv y3) \<and> device (srv y3) = device (srv y)"
    if "(server_step iowr)\<^sup>*\<^sup>* ?y y2" "server_event iowr y2 e y3" for y2 e y3
    using mutex_lost_forever [OF that(1) lost(2) inv1] mutex_lost_event [OF _ _ that(2)]
    by (auto simp: mutex_lost_def move_def)
  moreover have "read_contents l (srv y) f = Returned (NULL, None, srv y)"
    using assms(3,4) by (simp add: read_contents_def)
  ultimately show ?thesis using lost(1) by blast
qed

theorem reply_without_memory_stops_all_witness:
  "\<exists>y1. server_event (\<lambda>m n sz. 5) ex_reading (Read 21) y1 \<and>
    (\<forall>y2 e y3. (server_step (\<lambda>m n sz. 5))\<^sup>*\<^sup>* y1 y2 \<longrightarrow> server_event (\<lambda>m n sz. 5) y2 e y3 \<longrightarrow> \<not> touches_file e)"
  using reply_without_memory_stops_all [OF ex_reading_reached, of 21 "ex_conn\<lparr>conn_info := 21\<rparr>" opened ex_no_malloc "\<lambda>m n sz. 5"]
  by (auto simp: ex_reading_def)



text \<open>C21. A new client's connection is closed by the cleanup of an old one. A thread closes its
  descriptor when it is done, so \<^verbatim>\<open>accept\<close> may return the same number for the next client; the
  cleanup that follows finds the old thread complete and closes the number again. The new client is
  on the list, its thread still to run, with a descriptor that is no longer open.\<close>

theorem cleanup_closes_new_client:
  assumes "system_inv y" "infos (srv y) p = Some i" "thread_complete_flag i"
    and "accept_legal a (srv y)" "accept_ret a = Some (client_socket i, k)" "info_malloc a = Some (q, j)"
      "create_ret a = Some t"
    and "accept_turn a (srv y) = Returned (Some q, True, s1)" "cleanup_threads s1 = Returned s2"
  shows "sockets s1 (client_socket i) = Some k \<and> client_socket i \<notin> dom (sockets s2) \<and>
    (\<exists>i'. infos s2 q = Some i' \<and> client_socket i' = client_socket i \<and> \<not> thread_complete_flag i') \<and>
    q \<in> set (thread_list s2) \<and> p \<notin> set (thread_list s2)"
  using reused_descriptor [OF assms] by blast

definition ex_done :: system where
  "ex_done = \<lparr>srv = ex_server\<lparr>infos := [20 \<mapsto> ex_info\<lparr>thread_complete_flag := True\<rparr>], sockets := Map.empty\<rparr>,
     running = Map.empty, in_cleanup = False\<rparr>"

theorem cleanup_closes_new_client_witness:
  "\<exists>s1 s2. accept_turn ex_accept (srv ex_done) = Returned (Some 21, True, s1) \<and> cleanup_threads s1 = Returned s2 \<and>
    sockets s1 5 = Some 2 \<and> 5 \<notin> dom (sockets s2) \<and> 21 \<in> set (thread_list s2)"
proof -
  have inv: "system_inv ex_done"
    by (rule system_invI) (use ex_dev_inv(1) in \<open>auto simp: ex_done_def dev_inv_def\<close>)
  let ?s1 = "(srv ex_done)\<lparr>sockets := [5 \<mapsto> 2],
      infos := (infos (srv ex_done))(21 \<mapsto> ex_info\<lparr>thread_complete_flag := False, thread_id := 7\<rparr>),
      thread_list := [21, 20]\<rparr>"
  have a: "accept_turn ex_accept (srv ex_done) = Returned (Some 21, True, ?s1)"
    by (simp add: accept_turn_def ex_accept_def ex_done_def lock_list_def unlock_list_def ex_info_def ex_server_def)
  obtain s2 where s2: "cleanup_threads ?s1 = Returned s2"
    using cleanup_threads_result [of ?s1] by (auto simp: ex_done_def)
  have "5 \<notin> dom (sockets s2) \<and> sockets ?s1 5 = Some 2 \<and> 21 \<in> set (thread_list s2)"
    using cleanup_closes_new_client [OF inv _ _ _ _ _ _ a s2, of 20 "ex_info\<lparr>thread_complete_flag := True\<rparr>" 2 ex_info 7]
    by (auto simp: ex_done_def ex_accept_def accept_legal_def)
  with a s2 show ?thesis by blast
qed

section \<open>Start-up\<close>







section \<open>The functions for a regular file\<close>

text \<open>\<^verbatim>\<open>read_file\<close>, which is not called with the device, reads the whole log with no limit on its
  size, in a block of the right size; without memory it too keeps the mutex.\<close>

lemma read_file_spec:
  assumes "dev_inv (device s)" "in_range (device s)" "\<not> file_mutex s"
    and "\<not> interrupted (seek_end_call l)" "llseek_ok (seek_end_call l)"
      "\<not> interrupted (seek_set_call l)" "llseek_ok (seek_set_call l)"
    and "log' = log_bytes (abs_dev (device s))" "read_granted l s (length log')" "malloc_ret l = Some (a, j)"
  shows "read_file l s = Returned (Some a, Some (of_nat (length log')), s\<lparr>memory := (memory s)(a \<mapsto> log' @ [0])\<rparr>) \<and>
    (\<exists>n. read_file (l\<lparr>malloc_ret := None\<rparr>) s = Returned (NULL, Some n, s\<lparr>file_mutex := True\<rparr>))"
proof -
  have "fopen_ok l" using assms(9) by (rule read_granted_io(3))
  then show ?thesis
    using read_file_ok [OF assms] read_file_no_memory [of s "l\<lparr>malloc_ret := None\<rparr>"] assms(1-7) by simp
qed

lemma read_file_spec_example:
  "read_file ex_libc ex_server = Returned (Some 40, Some 5, ex_server\<lparr>memory := [40 \<mapsto> [97, 98, 10, 99, 10, 0]]\<rparr>)"
  using read_file_spec [of ex_server ex_libc "[97, 98, 10, 99, 10]" 40 "\<lambda>_. 0"] by (simp add: log_bytes_def)

text \<open>A timestamp is stored as one more line of the log.\<close>

lemma timestamp_is_a_line:
  assumes "dev_inv (device s)" "\<not> file_mutex s" "fopen_ok l" "newline \<notin> set ts"
    and "stdio_calls (\<lambda>k d xs. good_call k d) dev_wr (stream_io l) (device s) opened (ts @ [newline])"
    and "length (ts @ [newline]) \<le> length (stream_io l)"
    and "length (pending (abs_dev (device s))) + length (ts @ [newline]) < 2 ^ 63"
  shows "\<exists>s'. timer_thread_function [(l, ts)] s = Returned s' \<and> dev_inv (device s') \<and> \<not> file_mutex s' \<and>
    abs_dev (device s') = spec_write (abs_dev (device s)) (ts @ [newline])"
  using timestamp_line [OF assms] assms(2) by fastforce

lemma timestamp_is_a_line_example:
  "\<exists>s'. timer_thread_function [(ex_libc, [116])] ex_server = Returned s' \<and> dev_inv (device s')"
proof -
  have "stdio_calls (\<lambda>k d xs. good_call k d) dev_wr (stream_io ex_libc) (device ex_server) opened ([116] @ [newline])"
    by (simp only: ex_libc_facts ex_server_facts, rule dev_stdio_calls_one) simp_all
  then show ?thesis using timestamp_is_a_line [of ex_server ex_libc "[116]"] by auto
qed

end
