(* ===== verification/System_Calls.thy ===== *)
theory System_Calls
  imports Prelude
begin

text \<open>
  \<^verbatim>\<open>examples/systemcalls/systemcalls.c\<close>: running a command through \<^verbatim>\<open>system\<close>, through \<^verbatim>\<open>fork\<close> and
  \<^verbatim>\<open>execv\<close>, and with its output sent to a file. The operating system's answers are a record; a
  call that forks has two ends, one for each process.
\<close>

unbundle bit_operations_syntax

type_synonym cstring = "string option" \<comment> \<open>\<open>None\<close> is \<open>NULL\<close>\<close>

section \<open>Answers and ends\<close>

text \<open>
  \<open>execv_ok\<close> says whether the program image can be replaced; \<open>fork_ret\<close> is what the parent sees;
  \<open>wait_status\<close> is stored by \<^verbatim>\<open>waitpid\<close> when it succeeds, otherwise \<open>status\<close> keeps
  \<open>status_junk\<close>.
\<close>

record exec_answers =
  open_ret :: cint
  fork_ret :: cint
  dup2_ret :: cint
  execv_ok :: "cstring \<Rightarrow> cstring list \<Rightarrow> bool"
  waitpid_ret :: cint
  wait_status :: cint
  status_junk :: cint

text \<open>
  How a process leaves the function: it returns to the caller, it becomes another program, with
  the file behind its descriptor 1 (\<open>None\<close>: the one it had before), or it is aborted.
\<close>

datatype proc_end = To_caller bool | Becomes cstring "cstring list" "cint option" | Aborted

record exec_ends =
  parent :: proc_end
  child :: "proc_end option"

section \<open>do_system\<close>

definition do_system :: "(cstring \<Rightarrow> cint) \<Rightarrow> cstring \<Rightarrow> bool" where
  "do_system sys cmd = (let ret = sys cmd in if ret = - 1 then False else True)"

section \<open>do_exec\<close>

definition check_absolute_path :: "cstring \<Rightarrow> bool" where
  "check_absolute_path path = (case path of
     None \<Rightarrow> False
   | Some s \<Rightarrow> if 0 < length s then (if s ! 0 = CHR ''/'' then True else False) else False)"

text \<open>The array of the variable arguments; asking for more than were passed is undefined.\<close>

definition command_array :: "nat \<Rightarrow> cstring list \<Rightarrow> fault + cstring list" where
  "command_array count args = (if length args < count then Inl OutOfBounds else Inr (take count args @ [None]))"

definition do_exec :: "exec_answers \<Rightarrow> nat \<Rightarrow> cstring list \<Rightarrow> exec_ends outcome" where
  "do_exec os count args =
     ebind (command_array count args) (\<lambda>command.
       if count = 2 \<and> \<not> check_absolute_path (command ! 0) then
         Returned \<lparr>parent = To_caller False, child = None\<rparr>
       else if count = 3 \<and> \<not> check_absolute_path (command ! 2) then
         Returned \<lparr>parent = To_caller False, child = None\<rparr>
       else if fork_ret os = - 1 then
         Returned \<lparr>parent = To_caller False, child = None\<rparr>
       else Returned
         \<lparr>parent = (if waitpid_ret os = - 1 then To_caller False else To_caller True),
          child = Some (if execv_ok os (command ! 0) command then Becomes (command ! 0) command None
                        else To_caller False)\<rparr>)"

section \<open>do_exec_redirect\<close>

text \<open>The macros of \<^verbatim>\<open>sys/wait.h\<close> on Linux.\<close>

definition WIFEXITED :: "cint \<Rightarrow> bool" where
  "WIFEXITED status \<longleftrightarrow> status AND 0x7f = 0"

definition WEXITSTATUS :: "cint \<Rightarrow> cint" where
  "WEXITSTATUS status = drop_bit 8 (status AND 0xff00)"

definition do_exec_redirect :: "exec_answers \<Rightarrow> nat \<Rightarrow> cstring list \<Rightarrow> exec_ends outcome" where
  "do_exec_redirect os count args =
     ebind (command_array count args) (\<lambda>command.
       let fd = open_ret os
       in if fd <s 0 then Returned \<lparr>parent = To_caller False, child = None\<rparr>
          else if fork_ret os = - 1 then Returned \<lparr>parent = Aborted, child = None\<rparr>
          else
            let status = (if waitpid_ret os = - 1 then status_junk os else wait_status os)
            in Returned
              \<lparr>parent = (if WIFEXITED status \<and> WEXITSTATUS status = 0 then To_caller True else To_caller False),
               child = Some
                 (if dup2_ret os <s 0 then Aborted
                  else if execv_ok os (command ! 0) command then Becomes (command ! 0) command (Some fd)
                  else Aborted)\<rparr>)"

section \<open>Facts\<close>

lemma do_system_iff: "do_system sys cmd \<longleftrightarrow> sys cmd \<noteq> - 1"
  by (simp add: do_system_def)

text \<open>The status of a process that exits with code \<open>n\<close>, and of one ended by signal \<open>sig\<close>.\<close>

definition exited :: "nat \<Rightarrow> cint" where "exited n = push_bit 8 (of_nat n)"
definition signalled :: "nat \<Rightarrow> cint" where "signalled sig = of_nat sig"

lemma exited_status:
  assumes "n < 256"
  shows "WIFEXITED (exited n)" "WEXITSTATUS (exited n) = of_nat n"
proof -
  have "n = take_bit 8 n" using assms by (simp add: take_bit_nat_eq_self)
  then have lt: "bit n i \<Longrightarrow> i < 8" for i by (metis bit_take_bit_iff)
  have m7: "(0x7f :: cint) = mask 7" and m8: "(0xff00 :: cint) = push_bit 8 (mask 8)"
    by (simp_all add: mask_eq_exp_minus_1 push_bit_eq_mult)
  show "WIFEXITED (exited n)"
    unfolding WIFEXITED_def exited_def m7
    by (rule bit_word_eqI) (auto simp: bit_simps)
  show "WEXITSTATUS (exited n) = of_nat n"
    unfolding WEXITSTATUS_def exited_def m8
    by (rule bit_word_eqI) (auto simp: bit_simps dest: lt)
qed

lemma signalled_status:
  assumes "0 < sig" "sig < 128"
  shows "\<not> WIFEXITED (signalled sig)"
proof -
  have m7: "(0x7f :: cint) = mask 7" by (simp add: mask_eq_exp_minus_1)
  have "unat (of_nat sig :: cint) = sig" using assms(2) by (simp add: unat_of_nat)
  then have "unat (take_bit 7 (of_nat sig :: cint)) = sig"
    using assms(2) by (simp only: unsigned_take_bit_eq) (simp add: take_bit_nat_eq_self)
  moreover have "(of_nat sig :: cint) AND mask 7 = take_bit 7 (of_nat sig)"
    by (simp only: take_bit_eq_mask)
  ultimately show ?thesis using assms(1) by (auto simp: WIFEXITED_def signalled_def m7)
qed

section \<open>Properties\<close>

text \<open>A kernel at which the properties are instantiated: everything is granted, the program exits with 3.\<close>

definition ex_os :: exec_answers where
  "ex_os = \<lparr>open_ret = 5, fork_ret = 77, dup2_ret = 1, execv_ok = (\<lambda>p c. True), waitpid_ret = 77,
     wait_status = exited 3, status_junk = 0\<rparr>"



text \<open>C38. \<^verbatim>\<open>do_exec\<close> does not look at how the command ended: its answer is the same for every
  status, so a command that fails is reported as a success; and when the program cannot be started,
  the call returns twice, with false in the child and, after a successful wait, true in the parent.\<close>

theorem do_exec_ignores_status:
  assumes "do_exec os count args = Returned r" "parent r = To_caller True" "0 < count"
  shows "do_exec (os\<lparr>wait_status := st\<rparr>) count args = Returned r \<and>
    child r = Some (if execv_ok os (args ! 0) (take count args @ [None])
      then Becomes (args ! 0) (take count args @ [None]) None else To_caller False)"
  using assms by (auto simp: do_exec_def command_array_def nth_append split: if_splits)

theorem do_exec_ignores_status_witness:
  "do_exec (ex_os\<lparr>wait_status := exited 1\<rparr>) 1 [Some ''/bin/false''] =
    Returned \<lparr>parent = To_caller True, child = Some (Becomes (Some ''/bin/false'') [Some ''/bin/false'', None] None)\<rparr>"
  using do_exec_ignores_status [of ex_os 1 "[Some ''/bin/false'']"]
  by (simp add: do_exec_def command_array_def ex_os_def)

text \<open>C37. \<^verbatim>\<open>do_exec_redirect\<close>, unlike \<^verbatim>\<open>do_exec\<close>, reports the command's end: once the file is open and
  the process forked and waited for, the caller is told true exactly when the program exited with
  status 0, and false when a signal ended it. The child runs the program with the file as its
  standard output or is aborted; it never returns to the caller.\<close>

theorem do_exec_redirect_spec:
  assumes "count \<le> length args" "0 < count" "\<not> open_ret os <s 0" "fork_ret os \<noteq> - 1" "waitpid_ret os \<noteq> - 1"
    and "wait_status os = (if sig = 0 then exited n else signalled sig)" "n < 256" "sig < 128"
  shows "\<exists>r. do_exec_redirect os count args = Returned r \<and>
    parent r = To_caller (sig = 0 \<and> n = 0) \<and>
    child r = Some (if \<not> dup2_ret os <s 0 \<and> execv_ok os (args ! 0) (take count args @ [None])
      then Becomes (args ! 0) (take count args @ [None]) (Some (open_ret os)) else Aborted)"
proof -
  have c: "command_array count args = Inr (take count args @ [None])" "(take count args @ [None]) ! 0 = args ! 0"
    using assms(1,2) by (simp_all add: command_array_def nth_append)
  have "unat (of_nat n :: cint) = n" using assms(7) by (simp add: unat_of_nat)
  then have z: "(of_nat n :: cint) = 0 \<longleftrightarrow> n = 0" by (auto dest: arg_cong [of _ _ unat])
  have "WIFEXITED (wait_status os) \<and> WEXITSTATUS (wait_status os) = 0 \<longleftrightarrow> sig = 0 \<and> n = 0"
    using assms(6-8) exited_status [of n] signalled_status [of sig] z by (cases "sig = 0") simp_all
  then show ?thesis using assms(3-5) by (simp add: do_exec_redirect_def c Let_def)
qed

theorem do_exec_redirect_spec_witness:
  "\<exists>r. do_exec_redirect ex_os 1 [Some ''/bin/ls''] = Returned r \<and> parent r = To_caller False \<and>
    child r = Some (Becomes (Some ''/bin/ls'') [Some ''/bin/ls'', None] (Some 5))"
  using do_exec_redirect_spec [of 1 "[Some ''/bin/ls'']" ex_os 0 3]
  by (simp add: ex_os_def word_sless_alt)

end
