(* ===== verification/Threading.thy ===== *)
theory Threading
  imports Prelude
begin

text \<open>
  \<^verbatim>\<open>examples/threading/threading.c\<close> and \<^verbatim>\<open>threading.h\<close>: a thread that waits, holds a mutex for a
  while and says whether it could. A \<open>thread_data\<close> lives in a heap of its own; what the thread
  asks of the system is recorded in order.
\<close>

section \<open>State\<close>

text \<open>The mutex is named by its address.\<close>

record thread_data =
  mutex :: nat
  wait_to_obtain_ms :: cint
  wait_to_release_ms :: cint
  thread_complete_success :: bool

type_synonym data_heap = "nat \<rightharpoonup> thread_data"

text \<open>\<^verbatim>\<open>usleep\<close> counts microseconds in an unsigned number; locking answers 0 when it succeeds.\<close>

datatype request = Usleep uint32_t | Lock nat cint | Unlock nat cint

record thread_answers =
  lock_ret :: cint
  unlock_ret :: cint

section \<open>The thread\<close>

text \<open>The requests, the heap and the pointer the thread returns.\<close>

definition threadfunc :: "thread_answers \<Rightarrow> data_heap \<Rightarrow> ptr \<Rightarrow> (request list \<times> data_heap \<times> ptr) outcome" where
  "threadfunc os h thread_param = (case thread_param of
     None \<Rightarrow> Oops NullDeref
   | Some p \<Rightarrow> (case h p of
       None \<Rightarrow> Oops UseAfterFree
     | Some d \<Rightarrow>
         let rs1 = [Usleep (wait_to_obtain_ms d), Lock (mutex d) (lock_ret os)]
         in if lock_ret os \<noteq> 0
            then Returned (rs1, h(p \<mapsto> d\<lparr>thread_complete_success := False\<rparr>), thread_param)
            else
              let rs2 = rs1 @ [Usleep (wait_to_release_ms d), Unlock (mutex d) (unlock_ret os)]
              in if unlock_ret os \<noteq> 0
                 then Returned (rs2, h(p \<mapsto> d\<lparr>thread_complete_success := False\<rparr>), thread_param)
                 else Returned (rs2, h(p \<mapsto> d\<lparr>thread_complete_success := True\<rparr>), thread_param)))"

text \<open>
  The starter: \<open>m\<close> is what \<^verbatim>\<open>malloc\<close> returns with what the block held, \<open>create_ret\<close> the answer of
  \<^verbatim>\<open>pthread_create\<close>. The result, the heap, and the argument of the thread that was started.
\<close>

definition start_thread_obtaining_mutex ::
  "(nat \<times> thread_data) option \<Rightarrow> cint \<Rightarrow> data_heap \<Rightarrow> nat \<Rightarrow> cint \<Rightarrow> cint \<Rightarrow> (bool \<times> data_heap \<times> ptr) outcome" where
  "start_thread_obtaining_mutex m create_ret h mtx obtain_ms release_ms = (case m of
     None \<Rightarrow> Oops NullDeref
   | Some (p, junk) \<Rightarrow>
       let h1 = h(p \<mapsto> junk\<lparr>mutex := mtx, wait_to_obtain_ms := obtain_ms, wait_to_release_ms := release_ms,
             thread_complete_success := False\<rparr>)
       in if create_ret \<noteq> 0 then Returned (False, h1(p := None), NULL)
          else Returned (True, h1, Some p))"

section \<open>Properties\<close>

text \<open>The mutexes held after some requests, by the calls that were answered with 0.\<close>

fun holds :: "nat set \<Rightarrow> request list \<Rightarrow> nat set" where
  "holds held [] = held"
| "holds held (Usleep n # rs) = holds held rs"
| "holds held (Lock m r # rs) = holds (if r = 0 then insert m held else held) rs"
| "holds held (Unlock m r # rs) = holds (if r = 0 then held - {m} else held) rs"

fun slept :: "request list \<Rightarrow> nat" where
  "slept [] = 0"
| "slept (Usleep n # rs) = unat n + slept rs"
| "slept (_ # rs) = slept rs"

definition ex_data :: thread_data where
  "ex_data = \<lparr>mutex = 9, wait_to_obtain_ms = 20, wait_to_release_ms = 30, thread_complete_success = False\<rparr>"

text \<open>C39. A started thread returns its own data, leaves no mutex held that it could release, and
  reports success exactly when both calls on the mutex were answered with 0; between the two it
  holds the mutex for the second wait. The waits are handed to \<^verbatim>\<open>usleep\<close> as they are: numbers the
  header calls milliseconds are slept as microseconds, a thousandth of what it promises.\<close>

theorem started_thread_result:
  assumes "p \<notin> dom h"
    and "start_thread_obtaining_mutex (Some (p, junk)) 0 h mtx obtain_ms release_ms = Returned (True, h1, arg)"
  shows "\<exists>rs h2. threadfunc os h1 arg = Returned (rs, h2, arg) \<and> arg = Some p \<and>
    (\<exists>d. h2 = h(p \<mapsto> d) \<and> (thread_complete_success d \<longleftrightarrow> lock_ret os = 0 \<and> unlock_ret os = 0)) \<and>
    (unlock_ret os = 0 \<longrightarrow> holds {} rs = {}) \<and>
    (lock_ret os = 0 \<longrightarrow> slept rs = unat obtain_ms + unat release_ms \<and>
      rs = [Usleep obtain_ms, Lock mtx 0, Usleep release_ms, Unlock mtx (unlock_ret os)])"
proof -
  let ?d = "junk\<lparr>mutex := mtx, wait_to_obtain_ms := obtain_ms, wait_to_release_ms := release_ms,
             thread_complete_success := False\<rparr>"
  let ?ok = "lock_ret os = 0 \<and> unlock_ret os = 0"
  let ?rs = "[Usleep obtain_ms, Lock mtx (lock_ret os)] @
    (if lock_ret os = 0 then [Usleep release_ms, Unlock mtx (unlock_ret os)] else [])"
  have h1: "h1 = h(p \<mapsto> ?d)" "arg = Some p"
    using assms(2) by (simp_all add: start_thread_obtaining_mutex_def)
  have "threadfunc os h1 arg = Returned (?rs, h(p \<mapsto> ?d\<lparr>thread_complete_success := ?ok\<rparr>), arg)"
    by (cases "lock_ret os = 0"; cases "unlock_ret os = 0") (simp_all add: threadfunc_def h1)
  moreover have "thread_complete_success (?d\<lparr>thread_complete_success := ?ok\<rparr>) \<longleftrightarrow> ?ok" by simp
  moreover have "unlock_ret os = 0 \<longrightarrow> holds {} ?rs = {}" by simp
  moreover have "lock_ret os = 0 \<longrightarrow> slept ?rs = unat obtain_ms + unat release_ms \<and>
      ?rs = [Usleep obtain_ms, Lock mtx 0, Usleep release_ms, Unlock mtx (unlock_ret os)]" by simp
  ultimately show ?thesis using h1(2) by blast
qed

theorem started_thread_result_witness:
  "\<exists>rs h2. threadfunc \<lparr>lock_ret = 0, unlock_ret = 0\<rparr> [4 \<mapsto> ex_data] (Some 4) = Returned (rs, h2, Some 4) \<and>
    slept rs = 50 \<and> holds {} rs = {}"
  using started_thread_result [of 4 Map.empty ex_data 9 20 30 "[4 \<mapsto> ex_data]" "Some 4" "\<lparr>lock_ret = 0, unlock_ret = 0\<rparr>"]
  by (intro exI [of _ "[Usleep 20, Lock 9 0, Usleep 30, Unlock 9 0]"])
    (auto simp: start_thread_obtaining_mutex_def ex_data_def)

text \<open>When the thread cannot be created the starter answers false and gives its memory back; when
  there is no memory it writes through the null pointer, \<^verbatim>\<open>malloc\<close>'s result not being looked at.\<close>

lemma start_thread_failures:
  assumes "create_ret \<noteq> 0" "p \<notin> dom h"
  shows "start_thread_obtaining_mutex (Some (p, junk)) create_ret h mtx obtain_ms release_ms = Returned (False, h, NULL) \<and>
    start_thread_obtaining_mutex None create_ret h mtx obtain_ms release_ms = Oops NullDeref"
proof -
  have "h(p := None) = h" using assms(2) by (auto simp: fun_eq_iff)
  then show ?thesis using assms(1) by (simp add: start_thread_obtaining_mutex_def)
qed

lemma start_thread_failures_example:
  "start_thread_obtaining_mutex (Some (4, ex_data)) 11 Map.empty 9 20 30 = Returned (False, Map.empty, NULL)"
  using start_thread_failures [of 11 4 Map.empty ex_data 9 20 30] by simp

end
