(* ===== verification/Writer.thy ===== *)
theory Writer
  imports Prelude
begin






end
