(* ===== verification/Autotest.thy ===== *)
theory Autotest
  imports Main
begin

text \<open>
  \<^verbatim>\<open>examples/autotest-validate\<close> and the test of \<^verbatim>\<open>student-test/assignment1\<close>: constants that show that
  the automated tests are set up. The name in \<^verbatim>\<open>conf/username.txt\<close> is read by a function of the
  submodule, so what it returns is an argument.
\<close>

definition this_function_returns_true :: bool where
  "this_function_returns_true = True"

definition this_function_returns_false :: bool where
  "this_function_returns_false = False"

definition my_username :: string where
  "my_username = ''bwaggle''"

text \<open>What the program prints, line by line; \<^verbatim>\<open>git_username\<close> is not used.\<close>

definition autotest_main :: "string list" where
  "autotest_main =
     [''this_function_returns_true returned '' @ (if this_function_returns_true then ''true'' else ''false''),
      ''this_function_returns_false returned '' @ (if this_function_returns_false then ''true'' else ''false'')]"

text \<open>Whether the test passes, and the one it replaced.\<close>

definition test_validate_my_username :: "string \<Rightarrow> bool" where
  "test_validate_my_username conf \<longleftrightarrow> my_username = conf"

definition test_validate_my_username_old :: bool where
  "test_validate_my_username_old = False"

lemma username_test:
  "test_validate_my_username conf \<longleftrightarrow> conf = ''bwaggle''"
  by (auto simp: test_validate_my_username_def my_username_def)

lemma autotest_output:
  "autotest_main = [''this_function_returns_true returned true'', ''this_function_returns_false returned false'']"
  by (simp add: autotest_main_def this_function_returns_true_def this_function_returns_false_def)

end
