(* ===== verification/Spec2Isabelle.thy ===== *)
theory Spec2Isabelle
  imports Driver_Properties Server_Properties System_Calls Threading Writer Autotest
begin

text \<open>
  Verification of the C programs of the repository: the Linux character driver under
  \<^verbatim>\<open>aesd-char-driver\<close>, the socket server under \<^verbatim>\<open>server\<close> that stores what its clients send in that
  device, and four small programs under \<^verbatim>\<open>examples\<close> and \<^verbatim>\<open>finder-app\<close>.

  \<^bold>\<open>The system.\<close> The driver keeps the last ten newline-terminated writes (commands) in a ring of
  pointers to kernel memory, and the command being assembled in an entry of its own. Reading
  returns the commands end to end; a seek, or an ioctl with a command number and an offset, sets
  the file position. The server accepts clients, gives each a thread, appends what the client sends
  up to a newline to the device and answers with the whole device, or, when the client sent the
  text of a seek command, with the part from there on. Threads share the file through one mutex and
  are reaped by the accepting thread from a linked list.

  \<^bold>\<open>The theories\<close>, from the bottom.
  \<^item> \<open>Prelude\<close>: C integer types as words, the faults C leaves undefined, the outcome of a call that
    may also block, conversions, the search of a position in a list of lengths.
  \<^item> \<open>Interfaces\<close>: the contracts as locales: a bounded queue that hands back what it overwrites, a
    byte stream read in pieces, a transition system with an invariant.
  \<^item> \<open>Circular_Buffer\<close> (\<^verbatim>\<open>aesd-circular-buffer.c/.h\<close>): every function of the ring; its well-formed
    states, its contents in order, and the interpretation of the queue.
  \<^item> \<open>Kernel_Memory\<close>: blocks by address, \<^verbatim>\<open>kfree\<close>, loads and stores with their faults, and the record
    of what the kernel answers to one call.
  \<^item> \<open>Char_Driver\<close> (\<^verbatim>\<open>main.c\<close>, \<^verbatim>\<open>aesdchar.h\<close>, \<^verbatim>\<open>aesd_ioctl.h\<close>): \<open>aesd_open\<close>, \<open>aesd_release\<close>, \<open>aesd_read\<close>,
    \<open>aesd_write\<close>, \<open>aesd_llseek\<close>, \<open>aesd_unlocked_ioctl\<close>, \<open>aesd_init_module\<close>, \<open>aesd_cleanup_module\<close>, each
    a function on \<open>kstate\<close>, the record of \<open>struct aesd_dev\<close> with the memory it points into.
  \<^item> \<open>Driver_Refinement\<close>, \<open>Driver_Write\<close>, \<open>Driver_Read\<close>, \<open>Driver_Control\<close>, \<open>Driver_System\<close>: the abstract
    device (\<open>cmd_log\<close>, \<open>spec_write\<close>), the representation invariant, one commuting diagram for each
    entry point, the reachable states, runs of writes. \<open>Ring_Properties\<close> and \<open>Driver_Properties\<close> state
    what is shown, \<open>Driver_Example\<close> is the device their instances use.
  \<^item> \<open>Stdio\<close>, \<open>Device_File\<close>: the C library's streams over any file, as the locale \<open>stream_file\<close>, and
    its interpretation on the driver's entry points: this is where the server meets the driver.
  \<^item> \<open>Server_Text\<close> (\<^verbatim>\<open>aesdsocket.c\<close>, lines 91 to 125, and the parsing of lines 254 to 263): a packet up to
    its newline, the search for the seek command, reading its two numbers.
  \<^item> \<open>Server_Connection\<close> (lines 50 to 316): the state all threads share, the timestamps, the thread of
    one client from \<open>connection_start\<close> to \<open>finish_connection\<close>, \<open>read_char_device\<close> and \<open>read_file\<close>.
  \<^item> \<open>Server_Refinement\<close>, \<open>Server_Replies\<close>, \<open>Server_Failures\<close>: a connection against the log of the
    device; what each failure leads to. \<open>Server_Session\<close>: clients one after another, against an abstract
    server whose state is the log.
  \<^item> \<open>Server_Main\<close> (lines 318 to 555): signal handlers, start-up, \<open>accept_turn\<close>, \<open>cleanup_threads\<close>, and the
    interleaving of all threads as the labelled step relation \<open>server_event\<close>. \<open>Server_System\<close>: its
    invariant and the order of the log; \<open>Server_Progress\<close>: mutual exclusion, and that all threads can
    come to their end; \<open>Server_Answers\<close>: what clients can be sent in any interleaving;
    \<open>Server_Startup\<close>: the start. \<open>Server_Example\<close> and \<open>Server_Properties\<close> are as for the driver.
  \<^item> \<open>System_Calls\<close> (\<^verbatim>\<open>examples/systemcalls\<close>), \<open>Threading\<close> (\<^verbatim>\<open>examples/threading\<close>), \<open>Writer\<close>
    (\<^verbatim>\<open>finder-app/writer.c\<close>), \<open>Autotest\<close> (\<^verbatim>\<open>examples/autotest-validate\<close>): the small programs with their
    properties.

  \<^bold>\<open>What is shown.\<close> The ring keeps the last ten entries and finds positions in them. The driver
  implements the log: writes in any pieces, reads and seeks act on the abstract device as they
  should, no call faults or loses memory when the kernel grants what is asked, and the invariant
  holds in every reachable state. The server answers a client that sends a line with the log after
  that line, however the line is cut into packets, and clients one after another each with the last
  ten lines so far. Under any interleaving of clients the log is the abstract device run on the
  packets in the order of their critical sections, every reply is a piece of the log as it was at
  one moment, at most one thread reads the file, and no thread touches memory it no longer owns;
  unless the mutex or the device's lock is lost all threads can come to their end. The properties of
  kind \<open>error\<close> prove what goes wrong and exactly when: the
  lock that the ioctl keeps and how one client stops the server with it, the buffers that are one
  byte short, the descriptor that is closed for somebody else, the mutex kept when memory is short,
  the unloading that frees the wrong block, the failed start that reports success.

  \<^bold>\<open>Conventions and bounds.\<close> Whatever is not in the repository is an argument: the kernel's answers
  (\<open>kernel_call\<close>, with \<open>alloc_ok\<close>, \<open>copy_in_ok\<close>, \<open>copy_out_ok\<close>, \<open>llseek_ok\<close> for what is documented of them),
  the macro \<^verbatim>\<open>_IOWR\<close>, and what the C library and the operating system answer (\<open>libc_call\<close>, \<open>client\<close>,
  \<open>accept_call\<close>, \<open>os_answers\<close>, \<open>exec_answers\<close>). \<^verbatim>\<open>copy_from_user\<close> pads with zeros what it could not copy.
  Words are those of a little-endian 64-bit target. The driver counts the ring's bytes in an \<^verbatim>\<open>int\<close>:
  results on positions assume fewer than \<open>2^31\<close> bytes (\<open>in_range\<close>), results on writes that the pending
  command does not wrap \<open>2^64\<close>. The streams of \<open>Stdio\<close> take one element of a list for every system call,
  so they need no fuel of their own: a list longer than the bytes to move is enough, and a list that
  ends too early counts as not having returned. Every loop of the C code is a recursion on its list
  or on the distance to its bound.

  \<^bold>\<open>Not modelled.\<close> Messages: \<^verbatim>\<open>PDEBUG\<close> (but for the one trace in \<open>write_trace\<close>), \<^verbatim>\<open>printf\<close>, \<^verbatim>\<open>perror\<close>,
  \<^verbatim>\<open>syslog\<close>, and with them \<^verbatim>\<open>get_in_addr\<close>, which only prepares an address to be printed. The branches
  of \<^verbatim>\<open>aesdsocket.c\<close> compiled without \<^verbatim>\<open>USE_AESD_CHAR_DEVICE\<close>, but for \<^verbatim>\<open>read_file\<close> and the timestamps,
  which are compiled in any case. Signals that arrive in the middle of a thread's work. The shell
  scripts.
\<close>

end
